theory Spec2Isabelle
  imports Main
begin

section \<open>JavaScript strings\<close>

text \<open>
  A JavaScript string is a sequence of UTF-16 code units. A code unit is modelled by its
  number; no arithmetic on code units is done anywhere in \<^verbatim>\<open>server.js\<close>, only
  comparisons, so no wrap-around arises. \<open>asc\<close> embeds an ASCII literal of the source,
  \<open>bullet\<close> is the one non-ASCII character of the source's literals (U+2022).
\<close>

type_synonym jstr = "nat list"

definition asc :: "string \<Rightarrow> jstr" where
  "asc s = map of_char s"

definition nl :: nat where
  "nl = 10"

definition bullet :: nat where
  "bullet = 8226"

text \<open>
  White space as \<^verbatim>\<open>String.prototype.trim\<close> and the class \<^verbatim>\<open>\s\<close> define it
  (ECMAScript WhiteSpace and LineTerminator): TAB, LF, VT, FF, CR, SP, NBSP, U+1680,
  U+2000..U+200A, U+2028, U+2029, U+202F, U+205F, U+3000 and U+FEFF.
\<close>

definition isSpace :: "nat \<Rightarrow> bool" where
  "isSpace c = (c = 9 \<or> c = 10 \<or> c = 11 \<or> c = 12 \<or> c = 13 \<or> c = 32 \<or> c = 160
     \<or> c = 5760 \<or> (8192 \<le> c \<and> c \<le> 8202) \<or> c = 8232 \<or> c = 8233 \<or> c = 8239
     \<or> c = 8287 \<or> c = 12288 \<or> c = 65279)"

definition trim :: "jstr \<Rightarrow> jstr" where
  "trim s = rev (dropWhile isSpace (rev (dropWhile isSpace s)))"

text \<open>\<^verbatim>\<open>Array.prototype.join\<close> on an array of strings.\<close>

fun join :: "jstr \<Rightarrow> jstr list \<Rightarrow> jstr" where
  "join sep [] = []"
| "join sep [x] = x"
| "join sep (x # y # ys) = x @ sep @ join sep (y # ys)"

text \<open>\<^verbatim>\<open>s.startsWith(p)\<close> and \<^verbatim>\<open>s.includes(p)\<close>.\<close>

fun startsWith :: "jstr \<Rightarrow> jstr \<Rightarrow> bool" where
  "startsWith s [] = True"
| "startsWith [] (p # ps) = False"
| "startsWith (c # cs) (p # ps) = (c = p \<and> startsWith cs ps)"

fun includes_js :: "jstr \<Rightarrow> jstr \<Rightarrow> bool" where
  "includes_js [] p = (p = [])"
| "includes_js (c # cs) p = (startsWith (c # cs) p \<or> includes_js cs p)"

text \<open>\<^verbatim>\<open>s.split('\n')\<close>: splitting at every occurrence of a one-unit separator string.\<close>

fun splitChar :: "nat \<Rightarrow> jstr \<Rightarrow> jstr \<Rightarrow> jstr list" where
  "splitChar d acc [] = [rev acc]"
| "splitChar d acc (c # cs) =
     (if c = d then rev acc # splitChar d [] cs else splitChar d (c # acc) cs)"

section \<open>Regular expressions\<close>

text \<open>
  The regular expressions of \<^verbatim>\<open>server.js\<close> use literals, character classes,
  quantified character classes (greedy and lazy), sequence, alternation, one capturing
  group, positive lookahead and \<^verbatim>\<open>$\<close> (never with the \<^verbatim>\<open>m\<close> flag, so it
  holds at the end of the input only). None looks behind, so a match position is
  represented by the input that remains.
\<close>

datatype citem = CChar nat | CRange nat nat | CSpace | CDigit

fun citem_has :: "citem \<Rightarrow> nat \<Rightarrow> bool" where
  "citem_has (CChar a) c = (c = a)"
| "citem_has (CRange lo hi) c = (lo \<le> c \<and> c \<le> hi)"
| "citem_has CSpace c = isSpace c"
| "citem_has CDigit c = (48 \<le> c \<and> c \<le> 57)"

definition cls :: "citem list \<Rightarrow> nat \<Rightarrow> bool" where
  "cls items c = list_ex (\<lambda>i. citem_has i c) items"

definition anychar :: "nat \<Rightarrow> bool" where
  "anychar c = True"

datatype re =
    Lit jstr
  | Cls "nat \<Rightarrow> bool"
  | Rep "nat \<Rightarrow> bool" nat "nat option" bool
  | Seq re re
  | Alt re re
  | Grp re
  | Look re
  | Eoi

primrec seqs :: "re list \<Rightarrow> re" where
  "seqs [] = Lit []"
| "seqs (r # rs) = (if rs = [] then r else Seq r (seqs rs))"

primrec alts :: "re list \<Rightarrow> re" where
  "alts [] = Lit []"
| "alts (r # rs) = (if rs = [] then r else Alt r (alts rs))"

text \<open>
  Case folding of the \<^verbatim>\<open>i\<close> flag (without \<^verbatim>\<open>u\<close>): Canonicalize maps a code unit
  to its upper case, and never maps a unit from 128 on to one below 128. Every literal and
  every class range of the source is ASCII, and white space has no case, so folding the
  ASCII letters decides every comparison that the source's expressions make.
\<close>

definition upperA :: "nat \<Rightarrow> nat" where
  "upperA c = (if 97 \<le> c \<and> c \<le> 122 then c - 32 else c)"

definition lowerA :: "nat \<Rightarrow> nat" where
  "lowerA c = (if 65 \<le> c \<and> c \<le> 90 then c + 32 else c)"

definition char_eq :: "bool \<Rightarrow> nat \<Rightarrow> nat \<Rightarrow> bool" where
  "char_eq ic p c = (if ic then upperA p = upperA c else p = c)"

definition cls_ok :: "bool \<Rightarrow> (nat \<Rightarrow> bool) \<Rightarrow> nat \<Rightarrow> bool" where
  "cls_ok ic P c = (if ic then P (upperA c) \<or> P (lowerA c) else P c)"

fun lit_match :: "bool \<Rightarrow> jstr \<Rightarrow> jstr \<Rightarrow> jstr option" where
  "lit_match ic [] s = Some s"
| "lit_match ic (p # ps) [] = None"
| "lit_match ic (p # ps) (c # cs) = (if char_eq ic p c then lit_match ic ps cs else None)"

definition dec :: "nat option \<Rightarrow> nat option" where
  "dec mx = map_option (\<lambda>n. n - 1) mx"

text \<open>
  A quantified class \<^verbatim>\<open>C{mn,mx}\<close>, greedy: one more unit is tried first, and the
  continuation only when that fails and the minimum is reached.
\<close>

fun rep_greedy :: "(nat \<Rightarrow> bool) \<Rightarrow> nat \<Rightarrow> nat option \<Rightarrow> jstr \<Rightarrow> (jstr \<Rightarrow> 'a option) \<Rightarrow> 'a option" where
  "rep_greedy P mn mx [] k = (if mn = 0 then k [] else None)"
| "rep_greedy P mn mx (c # cs) k =
     (if P c \<and> mx \<noteq> Some 0 then
        (case rep_greedy P (mn - 1) (dec mx) cs k of
           Some r \<Rightarrow> Some r
         | None \<Rightarrow> if mn = 0 then k (c # cs) else None)
      else if mn = 0 then k (c # cs) else None)"

text \<open>Lazy (\<^verbatim>\<open>C{mn,mx}?\<close>): the continuation is tried first once the minimum is reached.\<close>

fun rep_lazy :: "(nat \<Rightarrow> bool) \<Rightarrow> nat \<Rightarrow> nat option \<Rightarrow> jstr \<Rightarrow> (jstr \<Rightarrow> 'a option) \<Rightarrow> 'a option" where
  "rep_lazy P mn mx [] k = (if mn = 0 then k [] else None)"
| "rep_lazy P mn mx (c # cs) k =
     (if mn = 0 then
        (case k (c # cs) of
           Some r \<Rightarrow> Some r
         | None \<Rightarrow> if P c \<and> mx \<noteq> Some 0 then rep_lazy P 0 (dec mx) cs k else None)
      else if P c \<and> mx \<noteq> Some 0 then rep_lazy P (mn - 1) (dec mx) cs k else None)"

text \<open>
  The backtracking matcher, in continuation style as in the ECMAScript specification. A
  state is the remaining input and the value of capture group 1.
\<close>

type_synonym mstate = "jstr \<times> jstr option"

primrec m :: "re \<Rightarrow> bool \<Rightarrow> mstate \<Rightarrow> (mstate \<Rightarrow> mstate option) \<Rightarrow> mstate option" where
  "m (Lit p) = (\<lambda>ic st k.
     case lit_match ic p (fst st) of None \<Rightarrow> None | Some rest \<Rightarrow> k (rest, snd st))"
| "m (Cls P) = (\<lambda>ic st k.
     case fst st of [] \<Rightarrow> None | c # cs \<Rightarrow> if cls_ok ic P c then k (cs, snd st) else None)"
| "m (Rep P mn mx greedy) = (\<lambda>ic st k.
     if greedy then rep_greedy (cls_ok ic P) mn mx (fst st) (\<lambda>s'. k (s', snd st))
     else rep_lazy (cls_ok ic P) mn mx (fst st) (\<lambda>s'. k (s', snd st)))"
| "m (Seq a b) = (\<lambda>ic st k. m a ic st (\<lambda>st'. m b ic st' k))"
| "m (Alt a b) = (\<lambda>ic st k.
     case m a ic st k of Some r \<Rightarrow> Some r | None \<Rightarrow> m b ic st k)"
| "m (Grp a) = (\<lambda>ic st k.
     m a ic st (\<lambda>st'. k (fst st', Some (take (length (fst st) - length (fst st')) (fst st)))))"
| "m (Look a) = (\<lambda>ic st k.
     case m a ic st Some of None \<Rightarrow> None | Some st' \<Rightarrow> k (fst st, snd st'))"
| "m Eoi = (\<lambda>ic st k. if fst st = [] then k st else None)"

text \<open>
  \<^verbatim>\<open>RegExp.prototype.exec\<close> without the \<^verbatim>\<open>g\<close> flag: the match is tried at
  index 0, 1, ... up to and including the length, and the first success is returned. The
  result holds the input before the match, \<^verbatim>\<open>match[0]\<close> and \<^verbatim>\<open>match[1]\<close>.
\<close>

record jsmatch =
  before :: jstr
  whole :: jstr
  group1 :: "jstr option"

fun search :: "re \<Rightarrow> bool \<Rightarrow> jstr \<Rightarrow> jstr \<Rightarrow> jsmatch option" where
  "search r ic pre [] =
     (case m r ic ([], None) Some of
        None \<Rightarrow> None
      | Some st \<Rightarrow> Some \<lparr>before = rev pre, whole = [], group1 = snd st\<rparr>)"
| "search r ic pre (c # cs) =
     (case m r ic (c # cs, None) Some of
        None \<Rightarrow> search r ic (c # pre) cs
      | Some st \<Rightarrow> Some \<lparr>before = rev pre,
                       whole = take (length (c # cs) - length (fst st)) (c # cs),
                       group1 = snd st\<rparr>)"

definition js_match :: "re \<Rightarrow> bool \<Rightarrow> jstr \<Rightarrow> jsmatch option" where
  "js_match r ic s = search r ic [] s"

text \<open>
  \<^verbatim>\<open>s.replace(re, repl)\<close> without the \<^verbatim>\<open>g\<close> flag and with a replacement
  that has no \<^verbatim>\<open>$\<close> pattern: the first match is replaced.
\<close>

definition js_replace :: "re \<Rightarrow> bool \<Rightarrow> jstr \<Rightarrow> jstr \<Rightarrow> jstr" where
  "js_replace r ic repl s =
     (case js_match r ic s of
        None \<Rightarrow> s
      | Some mt \<Rightarrow> before mt @ repl @ drop (length (before mt) + length (whole mt)) s)"

text \<open>
  \<^verbatim>\<open>s.split(re)\<close> for an expression without capturing groups: at each index the
  expression is tried at that index only; a non-empty match closes the current piece, an
  empty match closes it unless the piece is empty; an empty input gives no piece when
  the expression matches it and one empty piece otherwise.
\<close>

fun split_go :: "re \<Rightarrow> bool \<Rightarrow> jstr \<Rightarrow> jstr \<Rightarrow> jstr list" where
  "split_go r ic acc [] = [rev acc]"
| "split_go r ic acc (c # cs) =
     (case m r ic (c # cs, None) Some of
        None \<Rightarrow> split_go r ic (c # acc) cs
      | Some st \<Rightarrow>
          if length (fst st) < length (c # cs) then rev acc # split_go r ic [] (fst st)
          else if acc = [] then split_go r ic [c] cs
          else rev acc # split_go r ic [c] cs)"

definition js_split :: "re \<Rightarrow> bool \<Rightarrow> jstr \<Rightarrow> jstr list" where
  "js_split r ic s =
     (if s = [] then (case m r ic ([], None) Some of None \<Rightarrow> [[]] | Some st \<Rightarrow> [])
      else split_go r ic [] s)"

text \<open>
  Whether an expression assigns capture group 1 on every path through it (the group lies
  in no optional part and in every alternative).
\<close>

primrec sets_group :: "re \<Rightarrow> bool" where
  "sets_group (Lit p) = False"
| "sets_group (Cls P) = False"
| "sets_group (Rep P mn mx g) = False"
| "sets_group (Seq a b) = (sets_group a \<or> sets_group b)"
| "sets_group (Alt a b) = (sets_group a \<and> sets_group b)"
| "sets_group (Grp a) = True"
| "sets_group (Look a) = False"
| "sets_group Eoi = False"

section \<open>The rule-based improver: \<^verbatim>\<open>improveResume\<close>\<close>

definition ch :: "char \<Rightarrow> nat" where
  "ch c = of_char c"

text \<open>The classes that the source's expressions share.\<close>

definition spaceColon :: "nat \<Rightarrow> bool" where
  \<comment> \<open>\<^verbatim>\<open>[\s:]\<close>\<close>
  "spaceColon = cls [CSpace, CChar (ch CHR '':'')]"

definition digit :: "nat \<Rightarrow> bool" where
  \<comment> \<open>\<^verbatim>\<open>\d\<close>\<close>
  "digit = cls [CDigit]"

definition phoneSep :: "nat \<Rightarrow> bool" where
  \<comment> \<open>\<^verbatim>\<open>[-.\s]\<close>\<close>
  "phoneSep = cls [CChar (ch CHR ''-''), CChar (ch CHR ''.''), CSpace]"

definition nameRe :: re where
  \<comment> \<open>\<^verbatim>\<open>/(?:Name|name)[\s:]*([A-Za-z\s]+?)(?:\n|,|$)/\<close>\<close>
  "nameRe = seqs
     [alts [Lit (asc ''Name''), Lit (asc ''name'')],
      Rep spaceColon 0 None True,
      Grp (Rep (cls [CRange (ch CHR ''A'') (ch CHR ''Z''), CRange (ch CHR ''a'') (ch CHR ''z''), CSpace])
             1 None False),
      alts [Lit [nl], Lit (asc '',''), Eoi]]"

definition emailRe :: re where
  \<comment> \<open>\<^verbatim>\<open>/([a-zA-Z0-9._%+-]+@[a-zA-Z0-9.-]+\.[a-zA-Z]{2,})/\<close>\<close>
  "emailRe = Grp (seqs
     [Rep (cls [CRange (ch CHR ''a'') (ch CHR ''z''), CRange (ch CHR ''A'') (ch CHR ''Z''),
                CRange (ch CHR ''0'') (ch CHR ''9''), CChar (ch CHR ''.''), CChar (ch CHR ''_''),
                CChar (ch CHR ''%''), CChar (ch CHR ''+''), CChar (ch CHR ''-'')]) 1 None True,
      Lit (asc ''@''),
      Rep (cls [CRange (ch CHR ''a'') (ch CHR ''z''), CRange (ch CHR ''A'') (ch CHR ''Z''),
                CRange (ch CHR ''0'') (ch CHR ''9''), CChar (ch CHR ''.''), CChar (ch CHR ''-'')])
          1 None True,
      Lit (asc ''.''),
      Rep (cls [CRange (ch CHR ''a'') (ch CHR ''z''), CRange (ch CHR ''A'') (ch CHR ''Z'')])
          2 None True])"

definition phoneRe :: re where
  \<comment> \<open>\<^verbatim>\<open>/(\+?\d{1,3}[-.\s]?\d{1,4}[-.\s]?\d{1,4}[-.\s]?\d{1,9})/\<close>\<close>
  "phoneRe = Grp (seqs
     [Rep (cls [CChar (ch CHR ''+'')]) 0 (Some 1) True,
      Rep digit 1 (Some 3) True,
      Rep phoneSep 0 (Some 1) True,
      Rep digit 1 (Some 4) True,
      Rep phoneSep 0 (Some 1) True,
      Rep digit 1 (Some 4) True,
      Rep phoneSep 0 (Some 1) True,
      Rep digit 1 (Some 9) True])"

text \<open>
  The four section expressions have one shape,
  \<^verbatim>\<open>/(?:L|l)[\s:]*([^]*?)(?=\n(?:S1|S2|...|$))/i\<close>:
  the label alternatives, then the stop labels of the lookahead.
\<close>

definition sectionRe :: "string list \<Rightarrow> string list \<Rightarrow> re" where
  "sectionRe labels stops = seqs
     [alts (map (\<lambda>l. Lit (asc l)) labels),
      Rep spaceColon 0 None True,
      Grp (Rep anychar 0 None False),
      Look (Seq (Lit [nl]) (alts (map (\<lambda>l. Lit (asc l)) stops @ [Eoi])))]"

definition skillsRe :: re where
  \<comment> \<open>\<^verbatim>\<open>/(?:Skills|skills)[\s:]*([^]*?)(?=\n(?:Experience|Education|Languages|Objective|$))/i\<close>\<close>
  "skillsRe = sectionRe [''Skills'', ''skills'']
     [''Experience'', ''Education'', ''Languages'', ''Objective'']"

definition educationRe :: re where
  \<comment> \<open>\<^verbatim>\<open>/(?:Education|education)[\s:]*([^]*?)(?=\n(?:Skills|Experience|Languages|$))/i\<close>\<close>
  "educationRe = sectionRe [''Education'', ''education'']
     [''Skills'', ''Experience'', ''Languages'']"

definition experienceRe :: re where
  \<comment> \<open>\<^verbatim>\<open>/(?:Experience|experience)[\s:]*([^]*?)(?=\n(?:Education|Skills|Languages|$))/i\<close>\<close>
  "experienceRe = sectionRe [''Experience'', ''experience'']
     [''Education'', ''Skills'', ''Languages'']"

definition languagesRe :: re where
  \<comment> \<open>\<^verbatim>\<open>/(?:Languages|languages)[\s:]*([^]*?)(?=\n(?:Skills|Experience|Education|$))/i\<close>\<close>
  "languagesRe = sectionRe [''Languages'', ''languages'']
     [''Skills'', ''Experience'', ''Education'']"

definition summaryRe :: re where
  \<comment> \<open>\<^verbatim>\<open>/(?:Objective|objective|Summary|summary)[\s:]*([^]*?)(?=\n)/i\<close>\<close>
  "summaryRe = seqs
     [alts [Lit (asc ''Objective''), Lit (asc ''objective''),
            Lit (asc ''Summary''), Lit (asc ''summary'')],
      Rep spaceColon 0 None True,
      Grp (Rep anychar 0 None False),
      Look (Lit [nl])]"

definition listSepRe :: re where
  \<comment> \<open>\<^verbatim>\<open>/[,;]|\n/\<close>\<close>
  "listSepRe = Alt (Cls (cls [CChar (ch CHR '',''), CChar (ch CHR '';'')])) (Lit [nl])"

definition blockSepRe :: re where
  \<comment> \<open>\<^verbatim>\<open>/\n(?=[A-Z])/g\<close>\<close>
  "blockSepRe = Seq (Lit [nl]) (Look (Cls (cls [CRange (ch CHR ''A'') (ch CHR ''Z'')])))"

text \<open>
  What the function can raise. \<open>EmptyResumeText\<close> is the
  \<^verbatim>\<open>throw new Error('Resume text cannot be empty')\<close> of line 62. A capture group
  that took no part in a match is \<^verbatim>\<open>undefined\<close>: calling \<^verbatim>\<open>.split\<close> or
  \<^verbatim>\<open>.length\<close> on it raises a \<open>TypeError\<close>; where the source only stores it
  (the contact), the model stops with \<open>UndefinedValue\<close>, so that a result \<open>Inr\<close> says
  that every local held a string.
\<close>

datatype error = EmptyResumeText | TypeError | UndefinedValue

record extracted =
  name :: jstr
  contact :: jstr
  summary :: jstr
  skills :: jstr
  experience :: jstr
  education :: jstr
  languages :: jstr

text \<open>\<^verbatim>\<open>let raw = ''; const mt = text.match(re); if (mt) raw = mt[1];\<close> followed by a method call on \<^verbatim>\<open>raw\<close>.\<close>

definition sectionRaw :: "re \<Rightarrow> jstr \<Rightarrow> error + jstr" where
  "sectionRaw r resumeText =
     (case js_match r True resumeText of
        None \<Rightarrow> Inr []
      | Some mt \<Rightarrow> (case group1 mt of None \<Rightarrow> Inl TypeError | Some g \<Rightarrow> Inr g))"

definition extractName :: "jstr \<Rightarrow> jstr" where
  \<comment> \<open>lines 66-70\<close>
  "extractName resumeText =
     (case js_match nameRe False resumeText of
        None \<Rightarrow> asc ''Applicant''
      | Some mt \<Rightarrow>
          (case group1 mt of
             None \<Rightarrow> asc ''Applicant''
           | Some g \<Rightarrow> if g \<noteq> [] then trim g else asc ''Applicant''))"

definition extractContact :: "jstr \<Rightarrow> error + jstr" where
  \<comment> \<open>lines 73-79\<close>
  "extractContact resumeText =
     (case (case js_match emailRe False resumeText of
              None \<Rightarrow> Inr []
            | Some mt \<Rightarrow> (case group1 mt of None \<Rightarrow> Inl UndefinedValue | Some g \<Rightarrow> Inr g)) of
        Inl e \<Rightarrow> Inl e
      | Inr contact0 \<Rightarrow>
          (case js_match phoneRe False resumeText of
             None \<Rightarrow> Inr contact0
           | Some mt \<Rightarrow>
               (case group1 mt of
                  None \<Rightarrow> Inl UndefinedValue
                | Some g \<Rightarrow> Inr (if contact0 \<noteq> [] then contact0 @ asc '' | '' @ g else g))))"

definition bulletSep :: jstr where
  \<comment> \<open>\<^verbatim>\<open>'\n\<bullet> '\<close>\<close>
  "bulletSep = [nl, bullet, ch CHR '' '']"

definition extractSkills :: "jstr \<Rightarrow> error + jstr" where
  \<comment> \<open>lines 82-90\<close>
  "extractSkills resumeText =
     (case sectionRaw skillsRe resumeText of
        Inl e \<Rightarrow> Inl e
      | Inr skillsRaw \<Rightarrow>
          Inr (join bulletSep
                 (take 12 (filter (\<lambda>s. length s > 0) (map trim (js_split listSepRe False skillsRaw))))))"

definition extractEducation :: "jstr \<Rightarrow> error + jstr" where
  \<comment> \<open>lines 93-100\<close>
  "extractEducation resumeText =
     (case sectionRaw educationRe resumeText of
        Inl e \<Rightarrow> Inl e
      | Inr educationRaw \<Rightarrow>
          Inr (join bulletSep
                 (take 3 (filter (\<lambda>s. length (trim s) > 0) (splitChar nl [] educationRaw)))))"

definition fmtLine :: "nat \<times> jstr \<Rightarrow> jstr" where
  \<comment> \<open>lines 112-115, the callback of \<^verbatim>\<open>lines.map((line, idx) => ...)\<close>\<close>
  "fmtLine p =
     (case p of (idx, line) \<Rightarrow>
        if idx = 0 \<and> length line > 0 then [bullet, ch CHR '' ''] @ line
        else if startsWith line [bullet] then line else asc ''  - '' @ line)"

definition fmtBlock :: "jstr \<Rightarrow> jstr" where
  \<comment> \<open>lines 110-116\<close>
  "fmtBlock exp = join [nl] (map fmtLine (enumerate 0 (splitChar nl [] (trim exp))))"

definition extractExperience :: "jstr \<Rightarrow> error + jstr" where
  \<comment> \<open>lines 103-117\<close>
  "extractExperience resumeText =
     (case sectionRaw experienceRe resumeText of
        Inl e \<Rightarrow> Inl e
      | Inr experienceRaw \<Rightarrow>
          Inr (join [nl]
                 (map fmtBlock
                    (take 5 (filter (\<lambda>s. length (trim s) > 0)
                               (js_split blockSepRe False experienceRaw))))))"

definition extractLanguages :: "jstr \<Rightarrow> error + jstr" where
  \<comment> \<open>lines 120-127\<close>
  "extractLanguages resumeText =
     (case sectionRaw languagesRe resumeText of
        Inl e \<Rightarrow> Inl e
      | Inr languagesRaw \<Rightarrow>
          Inr (join (asc '', '')
                 (filter (\<lambda>s. length s > 0) (map trim (js_split listSepRe False languagesRaw)))))"

definition addGoal :: "jstr \<Rightarrow> jstr \<Rightarrow> jstr" where
  \<comment> \<open>lines 139-141\<close>
  "addGoal targetRole s =
     (if \<not> includes_js s (asc ''role'') \<and> targetRole \<noteq> []
      then s @ asc '' Seeking '' @ targetRole
             @ asc '' role to apply technical skills and contribute to organizational growth.''
      else s)"

definition synthesized :: "jstr \<Rightarrow> jstr" where
  \<comment> \<open>line 130\<close>
  "synthesized targetRole =
     asc ''Dedicated professional with strong expertise in ''
       @ (if targetRole \<noteq> [] then targetRole else asc ''multiple areas'') @ asc ''.''"

definition extractSummary :: "jstr \<Rightarrow> jstr \<Rightarrow> error + jstr" where
  \<comment> \<open>lines 130-141\<close>
  "extractSummary resumeText targetRole =
     (case js_match summaryRe True resumeText of
        None \<Rightarrow> Inr (addGoal targetRole (synthesized targetRole))
      | Some objMatch \<Rightarrow>
          (case group1 objMatch of
             None \<Rightarrow> Inl TypeError
           | Some g \<Rightarrow>
               Inr (addGoal targetRole (if length g > 5 then trim g else synthesized targetRole))))"

definition and_then :: "error + 'a \<Rightarrow> ('a \<Rightarrow> error + 'b) \<Rightarrow> error + 'b" where
  "and_then x f = (case x of Inl e \<Rightarrow> Inl e | Inr v \<Rightarrow> f v)"

definition extractFields :: "jstr \<Rightarrow> jstr \<Rightarrow> error + extracted" where
  \<comment> \<open>lines 65-141, in the source's order\<close>
  "extractFields resumeText targetRole =
     and_then (extractContact resumeText) (\<lambda>c.
     and_then (extractSkills resumeText) (\<lambda>sk.
     and_then (extractEducation resumeText) (\<lambda>ed.
     and_then (extractExperience resumeText) (\<lambda>ex.
     and_then (extractLanguages resumeText) (\<lambda>la.
     and_then (extractSummary resumeText targetRole) (\<lambda>su.
       Inr \<lparr>name = extractName resumeText, contact = c, summary = su, skills = sk,
            experience = ex, education = ed, languages = la\<rparr>))))))"

text \<open>Lines 144-150: the labeled text built from the locals.\<close>

definition labeled :: "string \<Rightarrow> jstr \<Rightarrow> jstr" where
  \<comment> \<open>\<^verbatim>\<open>`LABEL: ${value}\n`\<close>\<close>
  "labeled l v = asc l @ asc '': '' @ v @ [nl]"

definition render :: "extracted \<Rightarrow> jstr" where
  "render f =
     labeled ''NAME'' (if name f \<noteq> [] then name f else asc ''Applicant'')
     @ (if contact f \<noteq> [] then labeled ''CONTACT'' (contact f) else [])
     @ labeled ''PROFESSIONAL SUMMARY'' (summary f)
     @ (if skills f \<noteq> [] then labeled ''SKILLS'' (skills f) else [])
     @ (if experience f \<noteq> [] then labeled ''WORK EXPERIENCE'' (experience f) else [])
     @ (if education f \<noteq> [] then labeled ''EDUCATION'' (education f) else [])
     @ (if languages f \<noteq> [] then labeled ''LANGUAGES'' (languages f) else [])"

definition improveResume :: "jstr \<Rightarrow> jstr \<Rightarrow> jstr \<Rightarrow> error + jstr" where
  "improveResume resumeText resumeType targetRole =
     (if resumeText = [] \<or> length (trim resumeText) = 0 then Inl EmptyResumeText
      else case extractFields resumeText targetRole of
             Inl e \<Rightarrow> Inl e
           | Inr f \<Rightarrow> Inr (render f))"

section \<open>The markup step: \<^verbatim>\<open>renderHtmlFromAiText\<close>\<close>

definition labelBreakRe :: re where
  \<comment> \<open>\<^verbatim>\<open>\n[A-Z]+:\<close>\<close>
  "labelBreakRe = seqs
     [Lit [nl], Rep (cls [CRange (ch CHR ''A'') (ch CHR ''Z'')]) 1 None True, Lit (asc '':'')]"

definition sectionEndRe :: re where
  \<comment> \<open>the lookahead body \<^verbatim>\<open>\n[A-Z]+:|$\<close>\<close>
  "sectionEndRe = Alt labelBreakRe Eoi"

definition getSectionRe :: "string \<Rightarrow> re" where
  \<comment> \<open>\<^verbatim>\<open>new RegExp(`${label}:[\\s\\S]*?(?=\\n[A-Z]+:|$)`, 'i')\<close>;
      \<^verbatim>\<open>[\s\S]\<close> holds of every code unit\<close>
  "getSectionRe label = seqs
     [Lit (asc label @ asc '':''), Rep anychar 0 None False, Look sectionEndRe]"

definition getSection :: "string \<Rightarrow> jstr \<Rightarrow> jstr" where
  \<comment> \<open>lines 158-162\<close>
  "getSection label aiText =
     (case js_match (getSectionRe label) True aiText of
        None \<Rightarrow> []
      | Some mt \<Rightarrow> trim (js_replace (Lit (asc label @ asc '':'')) True [] (whole mt)))"

definition orElse :: "jstr \<Rightarrow> jstr \<Rightarrow> jstr" where
  \<comment> \<open>\<^verbatim>\<open>a || b\<close> on strings: the empty string is falsy\<close>
  "orElse a b = (if a \<noteq> [] then a else b)"

definition line :: "string \<Rightarrow> jstr" where
  "line s = asc s @ [nl]"

text \<open>The blocks of the page template that hold a value.\<close>

definition titleBlock :: "jstr \<Rightarrow> jstr" where
  "titleBlock v = asc ''<title>'' @ v @ asc '' - Resume</title>''"

definition headingBlock :: "jstr \<Rightarrow> jstr" where
  "headingBlock v = asc ''<h1>'' @ v @ asc ''</h1>''"

definition contactBlock :: "jstr \<Rightarrow> jstr" where
  \<open>contactBlock v = asc ''<div class="contact">'' @ v @ asc ''</div>''\<close>

definition sectionBlock :: "string \<Rightarrow> jstr \<Rightarrow> jstr" where
  \<open>sectionBlock heading v =
     asc ''<div class="section"><h2>'' @ asc heading @ asc ''</h2><pre>'' @ v @ asc ''</pre></div>''\<close>

definition styleLines :: jstr where
  "styleLines =
     line ''    <style>''
     @ line ''      body{font-family:Arial,Helvetica,sans-serif; max-width:800px; margin:24px auto; color:#111}''
     @ line ''      h1{font-size:20px;margin:0}''
     @ line ''      .contact{margin-bottom:14px;color:#555}''
     @ line ''      .section{margin-top:12px}''
     @ line ''      .section h2{font-size:14px;border-bottom:1px solid #eee;padding-bottom:6px;color:#333}''
     @ line ''      .bullet{margin-left:18px}''
     @ line ''      pre{white-space:pre-wrap;font-family:inherit}''
     @ line ''    </style>''"

definition page :: "jstr \<Rightarrow> jstr \<Rightarrow> jstr \<Rightarrow> jstr \<Rightarrow> jstr \<Rightarrow> jstr \<Rightarrow> jstr" where
  \<comment> \<open>lines 170-195, the template literal\<close>
  \<open>page nameV contactV summaryV experienceV educationV skillsV =
     [nl]
     @ line ''  <!doctype html>''
     @ line ''  <html>''
     @ line ''  <head>''
     @ line ''    <meta charset="utf-8"/>''
     @ asc ''    '' @ titleBlock nameV @ [nl]
     @ styleLines
     @ line ''  </head>''
     @ line ''  <body>''
     @ asc ''    '' @ headingBlock nameV @ [nl]
     @ asc ''    '' @ contactBlock contactV @ [nl]
     @ asc ''    '' @ sectionBlock ''Professional Summary'' summaryV @ [nl]
     @ asc ''    '' @ sectionBlock ''Experience'' experienceV @ [nl]
     @ asc ''    '' @ sectionBlock ''Education'' educationV @ [nl]
     @ asc ''    '' @ sectionBlock ''Skills'' skillsV @ [nl]
     @ line ''  </body>''
     @ line ''  </html>''
     @ asc ''  ''\<close>

definition renderHtmlFromAiText :: "jstr \<Rightarrow> jstr" where
  \<comment> \<open>lines 156-196\<close>
  "renderHtmlFromAiText aiText =
     page (orElse (getSection ''NAME'' aiText) (asc ''Applicant''))
          (orElse (getSection ''CONTACT'' aiText) [])
          (orElse (getSection ''SUMMARY'' aiText) [])
          (orElse (getSection ''EXPERIENCE'' aiText) [])
          (orElse (getSection ''EDUCATION'' aiText) [])
          (orElse (getSection ''SKILLS'' aiText) [])"

section \<open>The generate operation: \<^verbatim>\<open>app.post('/api/generate')\<close>\<close>

text \<open>
  The collaborators of the handler are its parameters: what the payment gateway answers
  for a payment id (the request may throw, or give a JSON value with or without a string
  \<^verbatim>\<open>status\<close>), what the document engine makes of a page (a buffer, or an error with
  its message), the file name drawn from the clock and the identifier generator, and the
  configuration. The server's state is the resume store and the mail handed to the
  transport; the write to the store and the hand-over to the transport are taken to
  succeed. Request fields are strings or absent.
\<close>

datatype verification = VerifyThrows | VerifyJson "jstr option"

record world =
  verifyPayment :: "jstr \<Rightarrow> verification"
  htmlToPdfBuffer :: "jstr \<Rightarrow> jstr + nat list"
  fileName :: jstr
  hostUrl :: "jstr option"
  smtpConfigured :: bool

record server =
  resumes :: "(jstr \<times> nat list) list"
  outbox :: "(jstr \<times> jstr) list"

record request =
  payment_id :: "jstr option"
  resume_text :: "jstr option"
  resume_type :: "jstr option"
  email :: "jstr option"
  target_role :: "jstr option"

datatype response = Success jstr | Failure nat jstr

definition truthy :: "jstr option \<Rightarrow> bool" where
  "truthy v = (case v of None \<Rightarrow> False | Some s \<Rightarrow> s \<noteq> [])"

definition strOf :: "jstr option \<Rightarrow> jstr" where
  "strOf v = (case v of None \<Rightarrow> [] | Some s \<Rightarrow> s)"

definition verified :: "verification \<Rightarrow> bool" where
  \<comment> \<open>lines 252-261\<close>
  "verified v =
     (case v of
        VerifyThrows \<Rightarrow> False
      | VerifyJson st \<Rightarrow> st = Some (asc ''captured'') \<or> st = Some (asc ''authorized''))"

definition errorMessage :: "error \<Rightarrow> jstr" where
  "errorMessage e =
     (case e of
        EmptyResumeText \<Rightarrow> asc ''Resume text cannot be empty''
      | TypeError \<Rightarrow> asc ''Cannot read properties of undefined''
      | UndefinedValue \<Rightarrow> asc ''Cannot read properties of undefined'')"

definition userMessage :: "jstr \<Rightarrow> jstr" where
  \<comment> \<open>lines 299-304, the \<^verbatim>\<open>catch\<close> block\<close>
  "userMessage msg =
     (if includes_js msg (asc ''empty'') then asc ''Please paste your resume text to proceed.''
      else if includes_js msg (asc ''Payment not verified'')
      then asc ''Payment verification failed. Please try again.''
      else asc ''Resume generation failed. Please try again.'')"

definition generate :: "world \<Rightarrow> request \<Rightarrow> server \<Rightarrow> response \<times> server" where
  \<comment> \<open>lines 246-307\<close>
  "generate w req st =
     (if \<not> truthy (payment_id req) \<or> \<not> truthy (resume_text req)
      then (Failure 400 (asc ''Missing payment_id or resume_text''), st)
      else if \<not> verified (verifyPayment w (strOf (payment_id req)))
      then (Failure 400 (asc ''Payment not verified''), st)
      else
        case improveResume (strOf (resume_text req))
               (case resume_type req of None \<Rightarrow> asc ''Modern Professional'' | Some t \<Rightarrow> t)
               (orElse (strOf (target_role req)) []) of
          Inl e \<Rightarrow> (Failure 500 (userMessage (errorMessage e)), st)
        | Inr aiText \<Rightarrow>
            (case htmlToPdfBuffer w (renderHtmlFromAiText aiText) of
               Inl msg \<Rightarrow> (Failure 500 (userMessage msg), st)
             | Inr pdfBuffer \<Rightarrow>
                 let filePath = asc ''resumes/'' @ fileName w;
                     st1 = st\<lparr>resumes := resumes st @ [(filePath, pdfBuffer)]\<rparr>;
                     st2 = (if smtpConfigured w \<and> truthy (email req)
                            then st1\<lparr>outbox := outbox st1 @ [(strOf (email req), filePath)]\<rparr>
                            else st1)
                 in (case hostUrl w of
                       None \<Rightarrow> (Failure 500 (userMessage (asc ''Cannot read properties of undefined'')), st2)
                     | Some h \<Rightarrow>
                         (Success (js_replace (Seq (Lit (asc ''/'')) Eoi) False [] h
                                     @ asc ''/download/'' @ fileName w), st2))))"

section \<open>The rendering step as the specification words it\<close>




section \<open>Notions for reading the lookups of the markup step\<close>

text \<open>
  \<open>occurs ic p s\<close>: the literal \<open>p\<close> matches at some index of \<open>s\<close>. \<open>atEnd s\<close>: the
  lookahead of \<^verbatim>\<open>getSection\<close> holds where \<open>s\<close> remains. \<open>silent x z\<close>: it holds
  at no index inside \<open>x\<close> when \<open>z\<close> follows.
\<close>

fun occurs :: "bool \<Rightarrow> jstr \<Rightarrow> jstr \<Rightarrow> bool" where
  "occurs ic p [] = (lit_match ic p [] \<noteq> None)"
| "occurs ic p (c # cs) = (lit_match ic p (c # cs) \<noteq> None \<or> occurs ic p cs)"

definition atEnd :: "jstr \<Rightarrow> bool" where
  "atEnd s = (m sectionEndRe True (s, None) Some \<noteq> None)"

fun silent :: "jstr \<Rightarrow> jstr \<Rightarrow> bool" where
  "silent [] z = True"
| "silent (a # x) z = (\<not> atEnd (a # x @ z) \<and> silent x z)"

text \<open>
  The labels that \<^verbatim>\<open>renderHtmlFromAiText\<close> looks up, and the values that the lookups
  read back unharmed: a value is \<open>plain\<close> when it is not empty, neither starts nor ends
  with white space, holds none of the looked-up labels followed by a colon (in any case)
  and no line break followed by letters and a colon.
\<close>

definition lookupLabels :: "string list" where
  "lookupLabels = [''NAME'', ''CONTACT'', ''SUMMARY'', ''EXPERIENCE'', ''EDUCATION'', ''SKILLS'']"

definition plain :: "jstr \<Rightarrow> bool" where
  "plain v = (v \<noteq> [] \<and> \<not> isSpace (hd v) \<and> \<not> isSpace (last v)
     \<and> list_all (\<lambda>l. js_match (Lit (asc l @ asc '':'')) True v = None) lookupLabels
     \<and> js_match labelBreakRe True v = None)"

text \<open>The labeled text that the rendering step writes when the six looked-up values are not empty.\<close>

definition doc6 :: "jstr \<Rightarrow> jstr \<Rightarrow> jstr \<Rightarrow> jstr \<Rightarrow> jstr \<Rightarrow> jstr \<Rightarrow> jstr \<Rightarrow> jstr" where
  "doc6 n c s k e d L =
     asc ''NAME: '' @ n @ [nl] @ asc ''CONTACT: '' @ c @ [nl]
     @ asc ''PROFESSIONAL SUMMARY: '' @ s @ [nl] @ asc ''SKILLS: '' @ k @ [nl]
     @ asc ''WORK EXPERIENCE: '' @ e @ [nl] @ asc ''EDUCATION: '' @ d @ [nl] @ L"

section \<open>Example inputs\<close>


definition world_declined :: world where
  "world_declined = \<lparr>verifyPayment = (\<lambda>pid. VerifyJson (Some (asc ''failed''))),
     htmlToPdfBuffer = (\<lambda>html. Inr [37, 80, 68, 70]), fileName = asc ''1_a.pdf'',
     hostUrl = Some (asc ''https://h/''), smtpConfigured = False\<rparr>"

definition request_empty_text :: request where
  "request_empty_text = \<lparr>payment_id = Some (asc ''pay_1''), resume_text = Some [],
     resume_type = None, email = None, target_role = None\<rparr>"

definition request_blank_text :: request where
  "request_blank_text = \<lparr>payment_id = Some (asc ''pay_1''), resume_text = Some (asc ''   ''),
     resume_type = None, email = None, target_role = None\<rparr>"

definition server_empty :: server where
  "server_empty = \<lparr>resumes = [], outbox = []\<rparr>"

definition fields_plain :: extracted where
  "fields_plain = \<lparr>name = asc ''Jane'', contact = asc ''j@x.io'', summary = asc ''Dev'',
     skills = asc ''Go'', experience = asc ''Acme'', education = asc ''BSc'',
     languages = asc ''English''\<rparr>"



definition resume_jane :: jstr where
  "resume_jane = asc ''Name: Jane Doe'' @ [nl] @ asc ''jane@x.com'' @ [nl]"

definition fields_jane :: extracted where
  "fields_jane = \<lparr>name = asc ''Jane Doe'', contact = asc ''jane@x.com'',
     summary = asc ''Dedicated professional with strong expertise in multiple areas.'',
     skills = [], experience = [], education = [], languages = []\<rparr>"

section \<open>Properties\<close>

subsection \<open>A successful match comes from the continuation, with the group assigned\<close>

lemma rep_greedy_success:
  "rep_greedy P mn mx s k = Some x \<Longrightarrow> \<exists>s'. k s' = Some x"
  by (induction P mn mx s k rule: rep_greedy.induct) (auto split: if_splits option.splits)

lemma rep_lazy_success:
  "rep_lazy P mn mx s k = Some x \<Longrightarrow> \<exists>s'. k s' = Some x"
  by (induction P mn mx s k rule: rep_lazy.induct) (auto split: if_splits option.splits)

lemma m_success:
  "m r ic st k = Some x \<Longrightarrow> \<exists>st'. k st' = Some x \<and> (snd st \<noteq> None \<longrightarrow> snd st' \<noteq> None)"
proof (induction r arbitrary: st k x)
  case (Lit p)
  then show ?case by (auto split: option.splits)
next
  case (Cls P)
  then show ?case by (auto split: list.splits if_splits)
next
  case (Rep P mn mx g)
  then show ?case
    by (auto split: if_splits dest!: rep_greedy_success rep_lazy_success)
next
  case (Seq a b)
  from Seq.prems have "m a ic st (\<lambda>st'. m b ic st' k) = Some x" by simp
  from Seq.IH(1)[OF this] obtain st1 where
    1: "m b ic st1 k = Some x" and c1: "snd st \<noteq> None \<longrightarrow> snd st1 \<noteq> None" by blast
  from Seq.IH(2)[OF 1] obtain st2 where
    "k st2 = Some x" and "snd st1 \<noteq> None \<longrightarrow> snd st2 \<noteq> None" by blast
  with c1 show ?case by blast
next
  case (Alt a b)
  then show ?case by (auto split: option.splits)
next
  case (Grp a)
  from Grp.prems have
    "m a ic st (\<lambda>st'. k (fst st', Some (take (length (fst st) - length (fst st')) (fst st)))) = Some x"
    by simp
  from Grp.IH[OF this] show ?case by fastforce
next
  case (Look a)
  from Look.prems obtain st' where a: "m a ic st Some = Some st'" and b: "k (fst st, snd st') = Some x"
    by (auto split: option.splits)
  from Look.IH[OF a] have "snd st \<noteq> None \<longrightarrow> snd st' \<noteq> None" by auto
  with b show ?case by fastforce
next
  case Eoi
  then have "k st = Some x" by (auto split: if_splits)
  then show ?case by blast
qed

lemma m_sets_group:
  "sets_group r \<Longrightarrow> m r ic st k = Some x \<Longrightarrow> \<exists>st'. k st' = Some x \<and> snd st' \<noteq> None"
proof (induction r arbitrary: st k x)
  case (Seq a b)
  from Seq.prems(2) have ab: "m a ic st (\<lambda>st'. m b ic st' k) = Some x" by simp
  show ?case
  proof (cases "sets_group a")
    case True
    from Seq.IH(1)[OF True ab] obtain st1 where
      1: "m b ic st1 k = Some x" and "snd st1 \<noteq> None" by blast
    with m_success[OF 1] show ?thesis by blast
  next
    case False
    with Seq.prems(1) have sb: "sets_group b" by simp
    from m_success[OF ab] obtain st1 where 1: "m b ic st1 k = Some x" by blast
    from Seq.IH(2)[OF sb 1] show ?thesis .
  qed
next
  case (Alt a b)
  then show ?case by (auto split: option.splits)
next
  case (Grp a)
  from Grp.prems(2) have
    "m a ic st (\<lambda>st'. k (fst st', Some (take (length (fst st) - length (fst st')) (fst st)))) = Some x"
    by simp
  from m_success[OF this] show ?case by fastforce
qed simp_all

lemma search_sets_group:
  "sets_group r \<Longrightarrow> search r ic pre s = Some mt \<Longrightarrow> group1 mt \<noteq> None"
proof (induction s arbitrary: pre)
  case Nil
  then show ?case by (auto split: option.splits dest!: m_sets_group)
next
  case (Cons c cs)
  then show ?case by (auto split: option.splits dest!: m_sets_group)
qed

lemma js_match_group:
  "sets_group r \<Longrightarrow> js_match r ic s = Some mt \<Longrightarrow> \<exists>g. group1 mt = Some g"
  unfolding js_match_def by (auto dest: search_sets_group)

lemma sets_group_sectionRe: "sets_group (sectionRe ls ss)"
  by (simp add: sectionRe_def)

lemma sectionRaw_total: "\<exists>g. sectionRaw (sectionRe ls ss) t = Inr g"
  unfolding sectionRaw_def
  by (auto split: option.splits dest: js_match_group[OF sets_group_sectionRe])

lemma extractContact_total: "\<exists>g. extractContact t = Inr g"
proof -
  have e: "sets_group emailRe" by (simp add: emailRe_def)
  have p: "sets_group phoneRe" by (simp add: phoneRe_def)
  show ?thesis
    unfolding extractContact_def
    by (auto split: option.splits sum.splits dest: js_match_group[OF e] js_match_group[OF p])
qed

lemma extractSummary_total: "\<exists>g. extractSummary t r = Inr g"
proof -
  have e: "sets_group summaryRe" by (simp add: summaryRe_def)
  show ?thesis
    unfolding extractSummary_def
    by (auto split: option.splits dest: js_match_group[OF e])
qed

lemma section_total:
  "\<exists>v. (case sectionRaw (sectionRe ls ss) t of Inl e \<Rightarrow> Inl e | Inr raw \<Rightarrow> Inr (F raw)) = Inr v"
proof -
  obtain g where "sectionRaw (sectionRe ls ss) t = Inr g" using sectionRaw_total by blast
  then show ?thesis by simp
qed

lemma extractSkills_total: "\<exists>v. extractSkills t = Inr v"
  unfolding extractSkills_def skillsRe_def by (rule section_total)

lemma extractEducation_total: "\<exists>v. extractEducation t = Inr v"
  unfolding extractEducation_def educationRe_def by (rule section_total)

lemma extractExperience_total: "\<exists>v. extractExperience t = Inr v"
  unfolding extractExperience_def experienceRe_def by (rule section_total)

lemma extractLanguages_total: "\<exists>v. extractLanguages t = Inr v"
  unfolding extractLanguages_def languagesRe_def by (rule section_total)

lemma extractFields_total: "\<exists>f. extractFields t r = Inr f"
proof -
  obtain c where c: "extractContact t = Inr c" using extractContact_total by blast
  obtain sk where sk: "extractSkills t = Inr sk" using extractSkills_total by blast
  obtain ed where ed: "extractEducation t = Inr ed" using extractEducation_total by blast
  obtain ex where ex: "extractExperience t = Inr ex" using extractExperience_total by blast
  obtain la where la: "extractLanguages t = Inr la" using extractLanguages_total by blast
  obtain su where su: "extractSummary t r = Inr su" using extractSummary_total by blast
  show ?thesis
    by (simp add: extractFields_def and_then_def c sk ed ex la su)
qed

lemma trim_Nil_iff: "(trim s = []) = (\<forall>c\<in>set s. isSpace c)"
proof
  assume "trim s = []"
  then have a: "\<forall>x\<in>set (dropWhile isSpace s). isSpace x"
    by (simp add: trim_def)
  have "dropWhile isSpace s = []"
  proof (rule ccontr)
    assume n: "dropWhile isSpace s \<noteq> []"
    then have "\<not> isSpace (hd (dropWhile isSpace s))" by (rule hd_dropWhile)
    moreover have "hd (dropWhile isSpace s) \<in> set (dropWhile isSpace s)" using n by simp
    ultimately show False using a by blast
  qed
  then show "\<forall>c\<in>set s. isSpace c" by simp
next
  assume "\<forall>c\<in>set s. isSpace c"
  then have d: "dropWhile isSpace s = []" by simp
  show "trim s = []" unfolding trim_def d by simp
qed

subsection \<open>Input validation and totality\<close>

text \<open>
  C4. \<^verbatim>\<open>improveResume\<close> raises its input-validation error exactly when the text is
  empty or consists of white space only: every such text gives \<open>EmptyResumeText\<close>, every
  other text gives a result, and both \<^verbatim>\<open>""\<close> and \<^verbatim>\<open>"   "\<close> are rejected.
\<close>

theorem improveResume_blank_iff:
  "((\<forall>c\<in>set t. isSpace c) \<longrightarrow> improveResume t ty r = Inl EmptyResumeText)
   \<and> (\<not> (\<forall>c\<in>set t. isSpace c) \<longrightarrow> (\<exists>out. improveResume t ty r = Inr out))
   \<and> improveResume [] ty r = Inl EmptyResumeText
   \<and> improveResume (asc ''   '') ty r = Inl EmptyResumeText"
proof -
  have 1: "(\<forall>c\<in>set t. isSpace c) \<longrightarrow> improveResume t ty r = Inl EmptyResumeText"
    by (simp add: improveResume_def trim_Nil_iff)
  have 2: "\<not> (\<forall>c\<in>set t. isSpace c) \<longrightarrow> (\<exists>out. improveResume t ty r = Inr out)"
  proof
    assume n: "\<not> (\<forall>c\<in>set t. isSpace c)"
    then have "trim t \<noteq> []" by (simp add: trim_Nil_iff)
    moreover from n have "t \<noteq> []" by auto
    moreover obtain f where "extractFields t r = Inr f" using extractFields_total by blast
    ultimately show "\<exists>out. improveResume t ty r = Inr out"
      by (simp add: improveResume_def)
  qed
  have 3: "improveResume [] ty r = Inl EmptyResumeText"
    by (simp add: improveResume_def)
  have 4: "improveResume (asc ''   '') ty r = Inl EmptyResumeText"
    by (simp add: improveResume_def trim_Nil_iff asc_def isSpace_def)
  from 1 2 3 4 show ?thesis by blast
qed

theorem improveResume_blank_iff_witness:
  "isSpace 9 \<and> isSpace 32 \<and> isSpace 10
   \<and> improveResume [9, 32, 10] [] [] = Inl EmptyResumeText
   \<and> \<not> isSpace 97 \<and> (\<exists>out. improveResume [97] [] [] = Inr out)"
proof -
  have a: "\<forall>c\<in>set [9, 32, 10]. isSpace c" by (simp add: isSpace_def)
  have b: "\<not> (\<forall>c\<in>set [97]. isSpace c)" by (simp add: isSpace_def)
  from a b improveResume_blank_iff[of "[9, 32, 10]" "[]" "[]"] improveResume_blank_iff[of "[97]" "[]" "[]"]
  show ?thesis by simp
qed

text \<open>
  C3. For a text that is not empty and not white space only, \<^verbatim>\<open>improveResume\<close>
  returns (it raises nothing, and every local that holds a field holds a string), and the
  value written on the \<^verbatim>\<open>NAME\<close> line is not empty: it is the extracted name, or
  \<^verbatim>\<open>Applicant\<close> when that is empty.
\<close>

theorem improveResume_total:
  assumes "t \<noteq> []" and "\<not> (\<forall>c\<in>set t. isSpace c)"
  shows "\<exists>f v rest. extractFields t r = Inr f
           \<and> v = (if name f \<noteq> [] then name f else asc ''Applicant'')
           \<and> v \<noteq> []
           \<and> improveResume t ty r = Inr (asc ''NAME: '' @ v @ [nl] @ rest)"
proof -
  obtain f where f: "extractFields t r = Inr f" using extractFields_total by blast
  let ?v = "if name f \<noteq> [] then name f else asc ''Applicant''"
  have v: "?v \<noteq> []" by (simp add: asc_def)
  from assms have "trim t \<noteq> []" by (simp add: trim_Nil_iff)
  with assms f have "improveResume t ty r = Inr (render f)" by (simp add: improveResume_def)
  moreover have "\<exists>rest. render f = asc ''NAME: '' @ ?v @ [nl] @ rest"
    by (simp add: render_def labeled_def asc_def)
  then obtain rest where "render f = asc ''NAME: '' @ ?v @ [nl] @ rest" by blast
  ultimately have "improveResume t ty r = Inr (asc ''NAME: '' @ ?v @ [nl] @ rest)" by simp
  with f v show ?thesis by blast
qed


theorem improveResume_total_witness:
  "asc ''a'' \<noteq> [] \<and> \<not> (\<forall>c\<in>set (asc ''a''). isSpace c)
   \<and> (\<exists>f v rest. extractFields (asc ''a'') [] = Inr f
           \<and> v = (if name f \<noteq> [] then name f else asc ''Applicant'')
           \<and> v \<noteq> []
           \<and> improveResume (asc ''a'') [] [] = Inr (asc ''NAME: '' @ v @ [nl] @ rest))"
proof -
  have a: "asc ''a'' \<noteq> []" by (simp add: asc_def)
  have b: "\<not> (\<forall>c\<in>set (asc ''a''). isSpace c)" by (simp add: isSpace_def asc_def)
  from a b improveResume_total[OF a b, of "[]" "[]"] show ?thesis by blast
qed

subsection \<open>The rendering step\<close>





subsection \<open>Only the summary depends on the target role\<close>




subsection \<open>Payment-gated generation\<close>

text \<open>
  C8 (as amended). When the payment gateway does not report \<^verbatim>\<open>captured\<close> or
  \<^verbatim>\<open>authorized\<close> for the request's payment id, the handler leaves the resume store
  (and the whole server state) as it was, so extraction, rendering and the file write lie
  behind the verification; the caller receives the payment-not-verified failure when
  \<^verbatim>\<open>payment_id\<close> and \<^verbatim>\<open>resume_text\<close> are both present and not empty, whatever
  the text is otherwise, and the missing-input failure of line 249 when one of them is
  missing or empty.
\<close>

theorem generate_unverified:
  assumes "\<not> verified (verifyPayment w (strOf (payment_id req)))"
  shows "snd (generate w req st) = st
     \<and> fst (generate w req st) =
         (if truthy (payment_id req) \<and> truthy (resume_text req)
          then Failure 400 (asc ''Payment not verified'')
          else Failure 400 (asc ''Missing payment_id or resume_text''))"
  using assms by (simp add: generate_def)

theorem generate_unverified_witness:
  "\<not> verified (verifyPayment world_declined (strOf (payment_id request_blank_text)))
   \<and> snd (generate world_declined request_blank_text server_empty) = server_empty
   \<and> fst (generate world_declined request_blank_text server_empty)
       = Failure 400 (asc ''Payment not verified'')"
proof -
  have a: "\<not> verified (verifyPayment world_declined (strOf (payment_id request_blank_text)))"
    by (simp add: verified_def world_declined_def asc_def)
  have t: "truthy (payment_id request_blank_text) \<and> truthy (resume_text request_blank_text)"
    by (simp add: truthy_def request_blank_text_def asc_def)
  from generate_unverified[OF a, of server_empty] a t show ?thesis by simp
qed

text \<open>
  The claim as first stated promises the payment-not-verified failure whatever the resume
  text is; with an empty text the guard of line 249 answers first.
\<close>

theorem generate_unverified_counterexample:
  "\<not> verified (verifyPayment world_declined (strOf (payment_id request_empty_text)))
   \<and> fst (generate world_declined request_empty_text server_empty)
       = Failure 400 (asc ''Missing payment_id or resume_text'')
   \<and> fst (generate world_declined request_empty_text server_empty)
       \<noteq> Failure 400 (asc ''Payment not verified'')"
  by (simp add: generate_def verified_def world_declined_def request_empty_text_def truthy_def asc_def)

subsection \<open>Literals, searching and lazy repetition\<close>

lemma char_eq_refl: "char_eq ic q q"
  by (simp add: char_eq_def)

lemma lit_match_self: "lit_match ic p (p @ z) = Some z"
  by (induction p) (simp_all add: char_eq_refl)

lemma lit_match_drop: "lit_match ic p x = Some r \<Longrightarrow> r = drop (length p) x \<and> length p \<le> length x"
  by (induction ic p x rule: lit_match.induct) (auto split: if_splits)

lemma lit_match_mono: "lit_match ic p x = Some r \<Longrightarrow> lit_match ic p (x @ y) = Some (r @ y)"
  by (induction ic p x rule: lit_match.induct) (auto split: if_splits)

lemma lit_match_sep:
  "\<forall>q\<in>set p. \<not> char_eq ic q c \<Longrightarrow> lit_match ic p (x @ c # y) \<noteq> None \<Longrightarrow> lit_match ic p x \<noteq> None"
proof (induction p arbitrary: x)
  case Nil
  show ?case by simp
next
  case (Cons q ps)
  show ?case
  proof (cases x)
    case Nil
    with Cons.prems show ?thesis by simp
  next
    case (Cons a x')
    with Cons.prems Cons.IH[of x'] show ?thesis by (auto split: if_splits)
  qed
qed

lemma occurs_iff: "occurs ic p s = (\<exists>i\<le>length s. lit_match ic p (drop i s) \<noteq> None)"
proof (induction s)
  case Nil
  show ?case by simp
next
  case (Cons c cs)
  show ?case
  proof
    assume "occurs ic p (c # cs)"
    then consider "lit_match ic p (c # cs) \<noteq> None" | "occurs ic p cs" by auto
    then show "\<exists>i\<le>length (c # cs). lit_match ic p (drop i (c # cs)) \<noteq> None"
    proof cases
      case 1
      then have "lit_match ic p (drop 0 (c # cs)) \<noteq> None" by simp
      then show ?thesis by blast
    next
      case 2
      with Cons.IH obtain i where "i \<le> length cs" "lit_match ic p (drop i cs) \<noteq> None" by blast
      then have "Suc i \<le> length (c # cs) \<and> lit_match ic p (drop (Suc i) (c # cs)) \<noteq> None" by simp
      then show ?thesis by blast
    qed
  next
    assume "\<exists>i\<le>length (c # cs). lit_match ic p (drop i (c # cs)) \<noteq> None"
    then obtain i where i: "i \<le> length (c # cs)" "lit_match ic p (drop i (c # cs)) \<noteq> None" by blast
    show "occurs ic p (c # cs)"
    proof (cases i)
      case 0
      with i show ?thesis by simp
    next
      case (Suc j)
      with i have "j \<le> length cs" "lit_match ic p (drop j cs) \<noteq> None" by simp_all
      with Cons.IH show ?thesis by auto
    qed
  qed
qed

lemma occurs_sep:
  assumes "p \<noteq> []" and "\<forall>q\<in>set p. \<not> char_eq ic q c"
  shows "occurs ic p (x @ c # y) = (occurs ic p x \<or> occurs ic p y)"
proof (induction x)
  case Nil
  from assms obtain q ps where p: "p = q # ps" by (cases p) auto
  with assms(2) have "\<not> char_eq ic q c" by simp
  with p show ?case by simp
next
  case (Cons a x)
  have "(lit_match ic p (a # x @ c # y) \<noteq> None) = (lit_match ic p (a # x) \<noteq> None)"
  proof
    assume "lit_match ic p (a # x @ c # y) \<noteq> None"
    then have "lit_match ic p ((a # x) @ c # y) \<noteq> None" by simp
    from lit_match_sep[OF assms(2) this] show "lit_match ic p (a # x) \<noteq> None" .
  next
    assume "lit_match ic p (a # x) \<noteq> None"
    then obtain r where "lit_match ic p (a # x) = Some r" by blast
    from lit_match_mono[OF this, of "c # y"] show "lit_match ic p (a # x @ c # y) \<noteq> None" by simp
  qed
  with Cons.IH show ?case by auto
qed

lemma search_None_iff:
  "(search r ic pre s = None) = (\<forall>i\<le>length s. m r ic (drop i s, None) Some = None)"
proof (induction s arbitrary: pre)
  case Nil
  show ?case by (auto split: option.splits)
next
  case (Cons c cs)
  show ?case
  proof
    assume a: "search r ic pre (c # cs) = None"
    then have 0: "m r ic (c # cs, None) Some = None" by (auto split: option.splits)
    with a have "search r ic (c # pre) cs = None" by simp
    with Cons.IH have r: "\<forall>i\<le>length cs. m r ic (drop i cs, None) Some = None" by blast
    show "\<forall>i\<le>length (c # cs). m r ic (drop i (c # cs), None) Some = None"
    proof (intro allI impI)
      fix i assume "i \<le> length (c # cs)"
      then show "m r ic (drop i (c # cs), None) Some = None"
        using 0 r by (cases i) auto
    qed
  next
    assume a: "\<forall>i\<le>length (c # cs). m r ic (drop i (c # cs), None) Some = None"
    then have "m r ic (drop 0 (c # cs), None) Some = None" by blast
    then have 0: "m r ic (c # cs, None) Some = None" by simp
    have "\<forall>i\<le>length cs. m r ic (drop i cs, None) Some = None"
    proof (intro allI impI)
      fix i assume "i \<le> length cs"
      then have "Suc i \<le> length (c # cs)" by simp
      with a have "m r ic (drop (Suc i) (c # cs), None) Some = None" by blast
      then show "m r ic (drop i cs, None) Some = None" by simp
    qed
    with Cons.IH have "search r ic (c # pre) cs = None" by blast
    with 0 show "search r ic pre (c # cs) = None" by simp
  qed
qed

lemma js_match_Lit_None: "(js_match (Lit p) ic s = None) = (\<not> occurs ic p s)"
  unfolding js_match_def search_None_iff occurs_iff
  by (auto split: option.splits)

lemma search_skip:
  "\<forall>i<length x. m r ic (drop i x @ y, None) Some = None \<Longrightarrow>
   search r ic pre (x @ y) = search r ic (rev x @ pre) y"
proof (induction x arbitrary: pre)
  case Nil
  show ?case by simp
next
  case (Cons a x)
  from Cons.prems have 0: "m r ic (a # x @ y, None) Some = None" by force
  have "\<forall>i<length x. m r ic (drop i x @ y, None) Some = None"
  proof (intro allI impI)
    fix i assume "i < length x"
    then have "Suc i < length (a # x)" by simp
    with Cons.prems have "m r ic (drop (Suc i) (a # x) @ y, None) Some = None" by blast
    then show "m r ic (drop i x @ y, None) Some = None" by simp
  qed
  from Cons.IH[OF this, of "a # pre"] 0 show ?case by simp
qed

lemma rep_lazy_skip:
  "\<forall>i<length x. k (drop i x @ y) = None \<Longrightarrow> \<forall>c\<in>set x. P c \<Longrightarrow>
   rep_lazy P 0 None (x @ y) k = rep_lazy P 0 None y k"
proof (induction x)
  case Nil
  show ?case by simp
next
  case (Cons a x)
  from Cons.prems(1) have 0: "k (a # x @ y) = None" by force
  have "\<forall>i<length x. k (drop i x @ y) = None"
  proof (intro allI impI)
    fix i assume "i < length x"
    then have "Suc i < length (a # x)" by simp
    with Cons.prems(1) have "k (drop (Suc i) (a # x) @ y) = None" by blast
    then show "k (drop i x @ y) = None" by simp
  qed
  with Cons.IH Cons.prems(2) have "rep_lazy P 0 None (x @ y) k = rep_lazy P 0 None y k" by simp
  with 0 Cons.prems(2) show ?case by (simp add: dec_def)
qed

lemma rep_lazy_hit: "k y = Some r \<Longrightarrow> rep_lazy P 0 mx y k = Some r"
  by (cases y) simp_all

lemmas ev = asc_def ch_def nl_def cls_def isSpace_def char_eq_def cls_ok_def upperA_def lowerA_def
  dec_def anychar_def

lemma silent_iff: "silent x z = (\<forall>i<length x. \<not> atEnd (drop i x @ z))"
proof (induction x)
  case Nil
  show ?case by simp
next
  case (Cons a x)
  have "(\<forall>i<length (a # x). \<not> atEnd (drop i (a # x) @ z))
      = (\<not> atEnd (a # x @ z) \<and> (\<forall>i<length x. \<not> atEnd (drop i x @ z)))"
  proof
    assume h: "\<forall>i<length (a # x). \<not> atEnd (drop i (a # x) @ z)"
    then have "\<not> atEnd (drop 0 (a # x) @ z)" by blast
    moreover have "\<forall>i<length x. \<not> atEnd (drop i x @ z)"
    proof (intro allI impI)
      fix i assume "i < length x"
      then have "Suc i < length (a # x)" by simp
      with h have "\<not> atEnd (drop (Suc i) (a # x) @ z)" by blast
      then show "\<not> atEnd (drop i x @ z)" by simp
    qed
    ultimately show "\<not> atEnd (a # x @ z) \<and> (\<forall>i<length x. \<not> atEnd (drop i x @ z))" by simp
  next
    assume h: "\<not> atEnd (a # x @ z) \<and> (\<forall>i<length x. \<not> atEnd (drop i x @ z))"
    show "\<forall>i<length (a # x). \<not> atEnd (drop i (a # x) @ z)"
    proof (intro allI impI)
      fix i assume "i < length (a # x)"
      with h show "\<not> atEnd (drop i (a # x) @ z)" by (cases i) auto
    qed
  qed
  with Cons.IH show ?case by simp
qed

lemma silent_append: "silent x (y @ z) \<Longrightarrow> silent y z \<Longrightarrow> silent (x @ y) z"
  by (induction x) simp_all

lemma rep_greedy_local:
  assumes "\<not> P c" and "k (c # T) = None"
    and "\<And>u. u \<noteq> [] \<Longrightarrow> k (u @ c # T) \<noteq> None \<Longrightarrow> k' u \<noteq> None"
  shows "rep_greedy P mn mx (y @ c # T) k \<noteq> None \<Longrightarrow> rep_greedy P mn mx y k' \<noteq> None"
proof (induction y arbitrary: mn mx)
  case Nil
  with assms(1,2) show ?case by (simp split: if_splits)
next
  case (Cons a y)
  show ?case
  proof (cases "P a \<and> mx \<noteq> Some 0")
    case True
    show ?thesis
    proof (cases "rep_greedy P (mn - 1) (dec mx) (y @ c # T) k")
      case None
      with Cons.prems True have mn: "mn = 0" and "k (a # y @ c # T) \<noteq> None"
        by (auto split: if_splits)
      then have "k ((a # y) @ c # T) \<noteq> None" by simp
      from assms(3)[OF _ this] have "k' (a # y) \<noteq> None" by simp
      with True mn show ?thesis by (auto split: option.splits)
    next
      case (Some r)
      then have "rep_greedy P (mn - 1) (dec mx) (y @ c # T) k \<noteq> None" by simp
      from Cons.IH[OF this] True show ?thesis by (auto split: option.splits)
    qed
  next
    case False
    with Cons.prems have mn: "mn = 0" and "k (a # y @ c # T) \<noteq> None"
      by (auto split: if_splits)
    then have "k ((a # y) @ c # T) \<noteq> None" by simp
    from assms(3)[OF _ this] have "k' (a # y) \<noteq> None" by simp
    with False mn show ?thesis by auto
  qed
qed

lemma m_labelBreak:
  "m labelBreakRe True (s, c) Some =
     (case lit_match True [nl] s of
        None \<Rightarrow> None
      | Some r1 \<Rightarrow>
          rep_greedy (cls_ok True (cls [CRange (ch CHR ''A'') (ch CHR ''Z'')])) 1 None r1
            (\<lambda>s'. case lit_match True (asc '':'') s' of None \<Rightarrow> None | Some rest \<Rightarrow> Some (rest, c)))"
  by (simp add: labelBreakRe_def cong: option.case_cong)

lemma labelBreak_local:
  assumes "y \<noteq> []" and "m labelBreakRe True (y @ nl # T, None) Some \<noteq> None"
  shows "m labelBreakRe True (y, None) Some \<noteq> None"
proof -
  from assms(1) obtain a y' where y: "y = a # y'" by (cases y) auto
  let ?P = "cls_ok True (cls [CRange (ch CHR ''A'') (ch CHR ''Z'')])"
  let ?k = "\<lambda>s'. case lit_match True (asc '':'') s' of None \<Rightarrow> None | Some rest \<Rightarrow> Some (rest, None :: jstr option)"
  from assms(2) y have a: "char_eq True nl a"
    by (auto simp: m_labelBreak split: if_splits)
  with assms(2) y have g: "rep_greedy ?P 1 None (y' @ nl # T) ?k \<noteq> None"
    by (simp add: m_labelBreak)
  have 1: "\<not> ?P nl" by (simp add: ev)
  have 2: "?k (nl # T) = None" by (simp add: ev)
  have 3: "\<And>u. u \<noteq> [] \<Longrightarrow> ?k (u @ nl # T) \<noteq> None \<Longrightarrow> ?k u \<noteq> None"
  proof -
    fix u :: jstr assume "u \<noteq> []" and h: "?k (u @ nl # T) \<noteq> None"
    then obtain b u' where "u = b # u'" by (cases u) auto
    with h show "?k u \<noteq> None" by (auto simp: asc_def split: if_splits)
  qed
  from rep_greedy_local[of ?P nl ?k T ?k, OF 1 2 3 g] have "rep_greedy ?P 1 None y' ?k \<noteq> None" by blast
  with y a show ?thesis by (simp add: m_labelBreak)
qed

lemma silent_value:
  assumes "js_match labelBreakRe True v = None"
  shows "silent v (nl # T)"
proof -
  have "\<not> atEnd (drop i v @ nl # T)" if "i < length v" for i
  proof
    assume "atEnd (drop i v @ nl # T)"
    moreover from that have ne: "drop i v \<noteq> []" by simp
    ultimately have "m labelBreakRe True (drop i v @ nl # T, None) Some \<noteq> None"
      by (auto simp: atEnd_def sectionEndRe_def split: option.splits if_splits)
    from labelBreak_local[OF ne this] have "m labelBreakRe True (drop i v, None) Some \<noteq> None" .
    moreover from assms that have "m labelBreakRe True (drop i v, None) Some = None"
      by (simp add: js_match_def search_None_iff)
    ultimately show False by simp
  qed
  then show ?thesis by (simp add: silent_iff)
qed

lemma m_getSection:
  "m (getSectionRe l) True (s, c) Some =
     (case lit_match True (asc l @ asc '':'') s of
        None \<Rightarrow> None
      | Some rest \<Rightarrow>
          rep_lazy (cls_ok True anychar) 0 None rest
            (\<lambda>s'. case m sectionEndRe True (s', c) Some of None \<Rightarrow> None | Some st' \<Rightarrow> Some (s', snd st')))"
  by (simp add: getSectionRe_def cong: option.case_cong)

lemma m_getSection_at:
  assumes "silent C E" and "atEnd E"
  shows "\<exists>cp. m (getSectionRe l) True (asc l @ asc '':'' @ C @ E, None) Some = Some (E, cp)"
proof -
  let ?k = "\<lambda>s'. case m sectionEndRe True (s', None) Some of None \<Rightarrow> None | Some st' \<Rightarrow> Some (s', snd st')"
  have lm: "lit_match True (asc l @ asc '':'') (asc l @ asc '':'' @ C @ E) = Some (C @ E)"
    using lit_match_self[of True "asc l @ asc '':''" "C @ E"] by simp
  have "\<forall>i<length C. ?k (drop i C @ E) = None"
  proof (intro allI impI)
    fix i assume "i < length C"
    with assms(1) have "\<not> atEnd (drop i C @ E)" by (simp add: silent_iff)
    then show "?k (drop i C @ E) = None" by (auto simp: atEnd_def split: option.splits)
  qed
  moreover have "\<forall>c\<in>set C. cls_ok True anychar c" by (simp add: cls_ok_def anychar_def)
  ultimately have "rep_lazy (cls_ok True anychar) 0 None (C @ E) ?k
       = rep_lazy (cls_ok True anychar) 0 None E ?k"
    by (rule rep_lazy_skip)
  moreover from assms(2) obtain st' where "m sectionEndRe True (E, None) Some = Some st'"
    by (auto simp: atEnd_def)
  then have "?k E = Some (E, snd st')" by simp
  then have "rep_lazy (cls_ok True anychar) 0 None E ?k = Some (E, snd st')" by (rule rep_lazy_hit)
  ultimately show ?thesis using lm by (simp add: m_getSection)
qed

lemma js_replace_prefix:
  assumes "p \<noteq> []"
  shows "js_replace (Lit p) ic [] (p @ C) = C"
proof -
  from assms obtain a y where ay: "p @ C = a # y" by (cases p) auto
  have "m (Lit p) ic (p @ C, None) Some = Some (C, None)"
    by (simp add: lit_match_self)
  with ay have "search (Lit p) ic [] (p @ C)
      = Some \<lparr>before = [], whole = take (length (p @ C) - length C) (p @ C), group1 = None\<rparr>"
    by simp
  then show ?thesis by (simp add: js_replace_def js_match_def)
qed

lemma getSection_at:
  assumes none: "\<forall>i<length X. lit_match True (asc l @ asc '':'') (drop i X @ asc l @ asc '':'' @ C @ E) = None"
    and "silent C E" and "atEnd E"
  shows "getSection l (X @ asc l @ asc '':'' @ C @ E) = trim C"
proof -
  let ?Y = "asc l @ asc '':'' @ C @ E"
  have skip: "\<forall>i<length X. m (getSectionRe l) True (drop i X @ ?Y, None) Some = None"
    using none by (simp add: m_getSection)
  obtain cp where hit: "m (getSectionRe l) True (?Y, None) Some = Some (E, cp)"
    using m_getSection_at[OF assms(2,3)] by blast
  have "asc '':'' \<noteq> []" by (simp add: asc_def)
  then obtain a y where ay: "?Y = a # y" by (cases ?Y) auto
  have "search (getSectionRe l) True [] (X @ ?Y) = search (getSectionRe l) True (rev X @ []) ?Y"
    using skip by (rule search_skip)
  also have "\<dots> = Some \<lparr>before = X, whole = take (length ?Y - length E) ?Y, group1 = cp\<rparr>"
    using hit ay by (simp del: append_assoc)
  finally have "js_match (getSectionRe l) True (X @ ?Y)
      = Some \<lparr>before = X, whole = (asc l @ asc '':'') @ C, group1 = cp\<rparr>"
    by (simp add: js_match_def)
  moreover have "js_replace (Lit (asc l @ asc '':'')) True [] ((asc l @ asc '':'') @ C) = C"
    by (rule js_replace_prefix) (simp add: asc_def)
  ultimately show ?thesis by (simp add: getSection_def del: append_assoc)
qed

lemma no_occurrence_before:
  assumes "\<not> occurs ic p X" and "\<forall>q\<in>set p. \<not> char_eq ic q c"
  shows "\<forall>i<length (X @ [c]). lit_match ic p (drop i (X @ [c]) @ Y) = None"
proof (intro allI impI)
  fix i assume "i < length (X @ [c])"
  then have i: "i \<le> length X" by simp
  then have d: "drop i (X @ [c]) @ Y = drop i X @ c # Y" by simp
  show "lit_match ic p (drop i (X @ [c]) @ Y) = None"
  proof (rule ccontr)
    assume "lit_match ic p (drop i (X @ [c]) @ Y) \<noteq> None"
    with d have "lit_match ic p (drop i X @ c # Y) \<noteq> None" by simp
    from lit_match_sep[OF assms(2) this] i have "occurs ic p X" by (auto simp: occurs_iff)
    with assms(1) show False by simp
  qed
qed

lemma trim_core:
  assumes "x \<noteq> []" and "\<not> isSpace (hd x)" and "\<not> isSpace (last x)"
    and "\<forall>c\<in>set a. isSpace c" and "\<forall>c\<in>set b. isSpace c"
  shows "trim (a @ x @ b) = x"
proof -
  from assms(1) obtain h t where x: "x = h # t" by (cases x) auto
  with assms(2) have "dropWhile isSpace (x @ b) = x @ b" by simp
  with assms(4) have 1: "dropWhile isSpace (a @ x @ b) = x @ b" by (simp add: dropWhile_append)
  from assms(1) have r: "rev x = last x # rev (butlast x)" by (simp add: rev_eq_Cons_iff)
  from assms(3) have "dropWhile isSpace (rev x) = rev x" by (simp add: r)
  with assms(5) have "dropWhile isSpace (rev b @ rev x) = rev x" by (simp add: dropWhile_append)
  with 1 show ?thesis by (simp add: trim_def)
qed


subsection \<open>The lookups on the rendered text\<close>

lemma atEnd_Nil: "atEnd []"
  by (simp add: atEnd_def sectionEndRe_def m_labelBreak)

lemma atEnd_space: "\<not> atEnd (32 # z)"
  by (simp add: atEnd_def sectionEndRe_def m_labelBreak ev)

lemma atEnd_nl_only: "\<not> atEnd [nl]"
  by (simp add: atEnd_def sectionEndRe_def m_labelBreak ev)

lemma atEnd_CONTACT: "atEnd (nl # asc ''CONTACT: '' @ z)"
  by (simp add: atEnd_def sectionEndRe_def m_labelBreak ev)

lemma atEnd_SKILLS: "atEnd (nl # asc ''SKILLS: '' @ z)"
  by (simp add: atEnd_def sectionEndRe_def m_labelBreak ev)

lemma atEnd_EDUCATION: "atEnd (nl # asc ''EDUCATION: '' @ z)"
  by (simp add: atEnd_def sectionEndRe_def m_labelBreak ev)

lemma atEnd_LANGUAGES: "atEnd (nl # asc ''LANGUAGES: '' @ z)"
  by (simp add: atEnd_def sectionEndRe_def m_labelBreak ev)

lemma silent_PS: "silent (nl # asc ''PROFESSIONAL SUMMARY: '') z"
  by (simp add: atEnd_def sectionEndRe_def m_labelBreak ev)

lemma silent_WE: "silent (nl # asc ''WORK EXPERIENCE: '') z"
  by (simp add: atEnd_def sectionEndRe_def m_labelBreak ev)

lemma lookup_value:
  assumes doc: "D = X @ asc l @ asc '':'' @ (32 # x @ b) @ E"
    and none: "\<forall>i<length X. lit_match True (asc l @ asc '':'') (drop i X @ asc l @ asc '':'' @ (32 # x @ b) @ E) = None"
    and sil: "silent (x @ b) E" and hit: "atEnd E"
    and x: "x \<noteq> []" "\<not> isSpace (hd x)" "\<not> isSpace (last x)"
    and b: "\<forall>c\<in>set b. isSpace c"
  shows "getSection l D = x"
proof -
  have "silent (32 # x @ b) E" using sil atEnd_space by simp
  from getSection_at[OF none this hit] doc have "getSection l D = trim (32 # x @ b)" by simp
  moreover have "trim ([32] @ x @ b) = x"
    by (rule trim_core[OF x _ b]) (simp add: isSpace_def)
  ultimately show ?thesis by simp
qed

lemma plain_silent: "plain v \<Longrightarrow> silent v (nl # T)"
  by (simp add: plain_def silent_value)

lemma plain_occurs:
  assumes "plain v"
  shows "\<not> occurs True (asc ''NAME'' @ asc '':'') v"
    and "\<not> occurs True (asc ''CONTACT'' @ asc '':'') v"
    and "\<not> occurs True (asc ''SUMMARY'' @ asc '':'') v"
    and "\<not> occurs True (asc ''EXPERIENCE'' @ asc '':'') v"
    and "\<not> occurs True (asc ''EDUCATION'' @ asc '':'') v"
    and "\<not> occurs True (asc ''SKILLS'' @ asc '':'') v"
  using assms by (simp_all add: plain_def lookupLabels_def js_match_Lit_None)

lemmas occ = asc_def nl_def char_eq_def upperA_def occurs_sep

lemma lookup_NAME:
  assumes "plain n"
  shows "getSection ''NAME'' (doc6 n c s k e d L) = n"
proof (rule lookup_value[where X = "[]" and x = n and b = "[]"
        and E = "nl # asc ''CONTACT: '' @ c @ [nl]
     @ asc ''PROFESSIONAL SUMMARY: '' @ s @ [nl] @ asc ''SKILLS: '' @ k @ [nl]
     @ asc ''WORK EXPERIENCE: '' @ e @ [nl] @ asc ''EDUCATION: '' @ d @ [nl] @ L"])
  show "doc6 n c s k e d L = [] @ asc ''NAME'' @ asc '':'' @ (32 # n @ []) @ nl # asc ''CONTACT: '' @ c @ [nl]
     @ asc ''PROFESSIONAL SUMMARY: '' @ s @ [nl] @ asc ''SKILLS: '' @ k @ [nl]
     @ asc ''WORK EXPERIENCE: '' @ e @ [nl] @ asc ''EDUCATION: '' @ d @ [nl] @ L"
    by (simp add: doc6_def asc_def)
  show "silent (n @ []) (nl # asc ''CONTACT: '' @ c @ [nl]
     @ asc ''PROFESSIONAL SUMMARY: '' @ s @ [nl] @ asc ''SKILLS: '' @ k @ [nl]
     @ asc ''WORK EXPERIENCE: '' @ e @ [nl] @ asc ''EDUCATION: '' @ d @ [nl] @ L)"
    using plain_silent[OF assms] by simp
  show "atEnd (nl # asc ''CONTACT: '' @ c @ [nl]
     @ asc ''PROFESSIONAL SUMMARY: '' @ s @ [nl] @ asc ''SKILLS: '' @ k @ [nl]
     @ asc ''WORK EXPERIENCE: '' @ e @ [nl] @ asc ''EDUCATION: '' @ d @ [nl] @ L)"
    by (rule atEnd_CONTACT)
qed (use assms in \<open>simp_all add: plain_def\<close>)

lemma lookup_CONTACT:
  assumes "plain n" "plain c" "plain s"
  shows "getSection ''CONTACT'' (doc6 n c s k e d L)
           = c @ (nl # asc ''PROFESSIONAL SUMMARY: '') @ s"
proof -
  let ?p = "asc ''CONTACT'' @ asc '':''"
  let ?X' = "asc ''NAME: '' @ n"
  let ?x = "c @ (nl # asc ''PROFESSIONAL SUMMARY: '') @ s"
  let ?E = "nl # asc ''SKILLS: '' @ k @ [nl]
     @ asc ''WORK EXPERIENCE: '' @ e @ [nl] @ asc ''EDUCATION: '' @ d @ [nl] @ L"
  have doc: "doc6 n c s k e d L = (?X' @ [nl]) @ asc ''CONTACT'' @ asc '':'' @ (32 # ?x @ []) @ ?E"
    by (simp add: doc6_def asc_def)
  have "\<not> occurs True ?p ?X'"
    using plain_occurs(2)[OF assms(1)] by (simp add: occ)
  moreover have "\<forall>q\<in>set ?p. \<not> char_eq True q nl" by (simp add: occ)
  ultimately have none: "\<forall>i<length (?X' @ [nl]).
      lit_match True ?p (drop i (?X' @ [nl]) @ asc ''CONTACT'' @ asc '':'' @ (32 # ?x @ []) @ ?E) = None"
    by (rule no_occurrence_before)
  have "silent c (nl # asc ''PROFESSIONAL SUMMARY: '' @ s @ ?E)"
    by (rule plain_silent[OF assms(2)])
  moreover have "silent (nl # asc ''PROFESSIONAL SUMMARY: '') (s @ ?E)" by (rule silent_PS)
  moreover have "silent s ?E" by (rule plain_silent[OF assms(3)])
  ultimately have sil: "silent (?x @ []) ?E"
    by (simp add: silent_append)
  have x: "?x \<noteq> []" "\<not> isSpace (hd ?x)" "\<not> isSpace (last ?x)"
    using assms(2,3) by (simp_all add: plain_def)
  show ?thesis
    by (rule lookup_value[OF doc none sil atEnd_SKILLS x]) simp
qed

lemma lookup_SUMMARY:
  assumes "plain n" "plain c" "plain s"
  shows "getSection ''SUMMARY'' (doc6 n c s k e d L) = s"
proof -
  let ?p = "asc ''SUMMARY'' @ asc '':''"
  let ?X' = "asc ''NAME: '' @ n @ [nl] @ asc ''CONTACT: '' @ c @ [nl] @ asc ''PROFESSIONAL''"
  let ?E = "nl # asc ''SKILLS: '' @ k @ [nl]
     @ asc ''WORK EXPERIENCE: '' @ e @ [nl] @ asc ''EDUCATION: '' @ d @ [nl] @ L"
  have doc: "doc6 n c s k e d L = (?X' @ [32]) @ asc ''SUMMARY'' @ asc '':'' @ (32 # s @ []) @ ?E"
    by (simp add: doc6_def asc_def)
  have "\<not> occurs True ?p ?X'"
    using plain_occurs(3)[OF assms(1)] plain_occurs(3)[OF assms(2)] by (simp add: occ)
  moreover have "\<forall>q\<in>set ?p. \<not> char_eq True q 32" by (simp add: occ)
  ultimately have none: "\<forall>i<length (?X' @ [32]).
      lit_match True ?p (drop i (?X' @ [32]) @ asc ''SUMMARY'' @ asc '':'' @ (32 # s @ []) @ ?E) = None"
    by (rule no_occurrence_before)
  have sil: "silent (s @ []) ?E" using plain_silent[OF assms(3)] by simp
  have x: "s \<noteq> []" "\<not> isSpace (hd s)" "\<not> isSpace (last s)"
    using assms(3) by (simp_all add: plain_def)
  show ?thesis
    by (rule lookup_value[OF doc none sil atEnd_SKILLS x]) simp
qed

lemma lookup_SKILLS:
  assumes "plain n" "plain c" "plain s" "plain k" "plain e"
  shows "getSection ''SKILLS'' (doc6 n c s k e d L)
           = k @ (nl # asc ''WORK EXPERIENCE: '') @ e"
proof -
  let ?p = "asc ''SKILLS'' @ asc '':''"
  let ?X' = "asc ''NAME: '' @ n @ [nl] @ asc ''CONTACT: '' @ c @ [nl]
     @ asc ''PROFESSIONAL SUMMARY: '' @ s"
  let ?x = "k @ (nl # asc ''WORK EXPERIENCE: '') @ e"
  let ?E = "nl # asc ''EDUCATION: '' @ d @ [nl] @ L"
  have doc: "doc6 n c s k e d L = (?X' @ [nl]) @ asc ''SKILLS'' @ asc '':'' @ (32 # ?x @ []) @ ?E"
    by (simp add: doc6_def asc_def)
  have "\<not> occurs True ?p ?X'"
    using plain_occurs(6)[OF assms(1)] plain_occurs(6)[OF assms(2)] plain_occurs(6)[OF assms(3)]
    by (simp add: occ)
  moreover have "\<forall>q\<in>set ?p. \<not> char_eq True q nl" by (simp add: occ)
  ultimately have none: "\<forall>i<length (?X' @ [nl]).
      lit_match True ?p (drop i (?X' @ [nl]) @ asc ''SKILLS'' @ asc '':'' @ (32 # ?x @ []) @ ?E) = None"
    by (rule no_occurrence_before)
  have "silent k (nl # asc ''WORK EXPERIENCE: '' @ e @ ?E)"
    by (rule plain_silent[OF assms(4)])
  moreover have "silent (nl # asc ''WORK EXPERIENCE: '') (e @ ?E)" by (rule silent_WE)
  moreover have "silent e ?E" by (rule plain_silent[OF assms(5)])
  ultimately have sil: "silent (?x @ []) ?E"
    by (simp add: silent_append)
  have x: "?x \<noteq> []" "\<not> isSpace (hd ?x)" "\<not> isSpace (last ?x)"
    using assms(4,5) by (simp_all add: plain_def)
  show ?thesis
    by (rule lookup_value[OF doc none sil atEnd_EDUCATION x]) simp
qed

lemma lookup_EXPERIENCE:
  assumes "plain n" "plain c" "plain s" "plain k" "plain e"
  shows "getSection ''EXPERIENCE'' (doc6 n c s k e d L) = e"
proof -
  let ?p = "asc ''EXPERIENCE'' @ asc '':''"
  let ?X' = "asc ''NAME: '' @ n @ [nl] @ asc ''CONTACT: '' @ c @ [nl]
     @ asc ''PROFESSIONAL SUMMARY: '' @ s @ [nl] @ asc ''SKILLS: '' @ k @ [nl] @ asc ''WORK''"
  let ?E = "nl # asc ''EDUCATION: '' @ d @ [nl] @ L"
  have doc: "doc6 n c s k e d L = (?X' @ [32]) @ asc ''EXPERIENCE'' @ asc '':'' @ (32 # e @ []) @ ?E"
    by (simp add: doc6_def asc_def)
  have "\<not> occurs True ?p ?X'"
    using plain_occurs(4)[OF assms(1)] plain_occurs(4)[OF assms(2)] plain_occurs(4)[OF assms(3)]
      plain_occurs(4)[OF assms(4)]
    by (simp add: occ)
  moreover have "\<forall>q\<in>set ?p. \<not> char_eq True q 32" by (simp add: occ)
  ultimately have none: "\<forall>i<length (?X' @ [32]).
      lit_match True ?p (drop i (?X' @ [32]) @ asc ''EXPERIENCE'' @ asc '':'' @ (32 # e @ []) @ ?E) = None"
    by (rule no_occurrence_before)
  have sil: "silent (e @ []) ?E" using plain_silent[OF assms(5)] by simp
  have x: "e \<noteq> []" "\<not> isSpace (hd e)" "\<not> isSpace (last e)"
    using assms(5) by (simp_all add: plain_def)
  show ?thesis
    by (rule lookup_value[OF doc none sil atEnd_EDUCATION x]) simp
qed

lemma lookup_EDUCATION:
  assumes "plain n" "plain c" "plain s" "plain k" "plain e" "plain d"
    and L: "L = [] \<or> L = asc ''LANGUAGES: '' @ z"
  shows "getSection ''EDUCATION'' (doc6 n c s k e d L) = d"
proof -
  let ?p = "asc ''EDUCATION'' @ asc '':''"
  let ?X' = "asc ''NAME: '' @ n @ [nl] @ asc ''CONTACT: '' @ c @ [nl]
     @ asc ''PROFESSIONAL SUMMARY: '' @ s @ [nl] @ asc ''SKILLS: '' @ k @ [nl]
     @ asc ''WORK EXPERIENCE: '' @ e"
  have occ0: "\<not> occurs True ?p ?X'"
    using plain_occurs(5)[OF assms(1)] plain_occurs(5)[OF assms(2)] plain_occurs(5)[OF assms(3)]
      plain_occurs(5)[OF assms(4)] plain_occurs(5)[OF assms(5)]
    by (simp add: occ)
  have sp: "\<forall>q\<in>set ?p. \<not> char_eq True q nl" by (simp add: occ)
  have x: "d \<noteq> []" "\<not> isSpace (hd d)" "\<not> isSpace (last d)"
    using assms(6) by (simp_all add: plain_def)
  from L show ?thesis
  proof
    assume L0: "L = []"
    have doc: "doc6 n c s k e d L = (?X' @ [nl]) @ asc ''EDUCATION'' @ asc '':'' @ (32 # d @ [nl]) @ []"
      by (simp add: doc6_def asc_def L0)
    have none: "\<forall>i<length (?X' @ [nl]).
        lit_match True ?p (drop i (?X' @ [nl]) @ asc ''EDUCATION'' @ asc '':'' @ (32 # d @ [nl]) @ []) = None"
      using occ0 sp by (rule no_occurrence_before)
    have "silent d (nl # [])" by (rule plain_silent[OF assms(6)])
    moreover have "silent [nl] []" using atEnd_nl_only by simp
    ultimately have sil: "silent (d @ [nl]) []" by (simp add: silent_append)
    show ?thesis
      by (rule lookup_value[OF doc none sil atEnd_Nil x]) (simp add: isSpace_def nl_def)
  next
    assume L1: "L = asc ''LANGUAGES: '' @ z"
    let ?E = "nl # asc ''LANGUAGES: '' @ z"
    have doc: "doc6 n c s k e d L = (?X' @ [nl]) @ asc ''EDUCATION'' @ asc '':'' @ (32 # d @ []) @ ?E"
      by (simp add: doc6_def asc_def L1)
    have none: "\<forall>i<length (?X' @ [nl]).
        lit_match True ?p (drop i (?X' @ [nl]) @ asc ''EDUCATION'' @ asc '':'' @ (32 # d @ []) @ ?E) = None"
      using occ0 sp by (rule no_occurrence_before)
    have sil: "silent (d @ []) ?E" using plain_silent[OF assms(6)] by simp
    show ?thesis
      by (rule lookup_value[OF doc none sil atEnd_LANGUAGES x]) simp
  qed
qed

lemmas ev_match = asc_def ch_def nl_def bullet_def cls_def isSpace_def char_eq_def cls_ok_def
  upperA_def lowerA_def dec_def trim_def js_match_def anychar_def spaceColon_def digit_def phoneSep_def

lemmas ev_extract = extractFields_def and_then_def extractName_def extractContact_def extractSkills_def
  extractEducation_def extractExperience_def extractLanguages_def extractSummary_def sectionRaw_def
  nameRe_def emailRe_def phoneRe_def skillsRe_def educationRe_def experienceRe_def languagesRe_def
  summaryRe_def sectionRe_def listSepRe_def blockSepRe_def js_split_def bulletSep_def fmtBlock_def fmtLine_def
  addGoal_def synthesized_def

lemmas ev_section = render_def labeled_def getSection_def getSectionRe_def sectionEndRe_def
  labelBreakRe_def js_replace_def

lemma render_doc6:
  assumes "name f \<noteq> []" "contact f \<noteq> []" "skills f \<noteq> []" "experience f \<noteq> []" "education f \<noteq> []"
  shows "render f = doc6 (name f) (contact f) (summary f) (skills f) (experience f) (education f)
           (if languages f \<noteq> [] then asc ''LANGUAGES: '' @ languages f @ [nl] else [])"
  using assms by (simp add: render_def doc6_def labeled_def asc_def)

lemma lookups_plain:
  assumes "plain (name f)" "plain (contact f)" "plain (summary f)"
    "plain (skills f)" "plain (experience f)" "plain (education f)"
  shows "getSection ''NAME'' (render f) = name f"
    and "getSection ''CONTACT'' (render f) = contact f @ (nl # asc ''PROFESSIONAL SUMMARY: '') @ summary f"
    and "getSection ''SUMMARY'' (render f) = summary f"
    and "getSection ''EXPERIENCE'' (render f) = experience f"
    and "getSection ''EDUCATION'' (render f) = education f"
    and "getSection ''SKILLS'' (render f) = skills f @ (nl # asc ''WORK EXPERIENCE: '') @ experience f"
proof -
  let ?L = "if languages f \<noteq> [] then asc ''LANGUAGES: '' @ languages f @ [nl] else []"
  from assms have ne: "name f \<noteq> []" "contact f \<noteq> []" "skills f \<noteq> []" "experience f \<noteq> []"
      "education f \<noteq> []"
    by (simp_all add: plain_def)
  note d = render_doc6[OF ne]
  have L: "?L = [] \<or> ?L = asc ''LANGUAGES: '' @ (languages f @ [nl])" by simp
  show "getSection ''NAME'' (render f) = name f"
    unfolding d by (rule lookup_NAME[OF assms(1)])
  show "getSection ''CONTACT'' (render f) = contact f @ (nl # asc ''PROFESSIONAL SUMMARY: '') @ summary f"
    unfolding d by (rule lookup_CONTACT[OF assms(1,2,3)])
  show "getSection ''SUMMARY'' (render f) = summary f"
    unfolding d by (rule lookup_SUMMARY[OF assms(1,2,3)])
  show "getSection ''EXPERIENCE'' (render f) = experience f"
    unfolding d by (rule lookup_EXPERIENCE[OF assms(1,2,3,4,5)])
  show "getSection ''EDUCATION'' (render f) = education f"
    unfolding d by (rule lookup_EDUCATION[OF assms L])
  show "getSection ''SKILLS'' (render f) = skills f @ (nl # asc ''WORK EXPERIENCE: '') @ experience f"
    unfolding d by (rule lookup_SKILLS[OF assms(1,2,3,4,5)])
qed

lemma plain_examples:
  "plain (asc ''Jane'')" "plain (asc ''j@x.io'')" "plain (asc ''Dev'')" "plain (asc ''Go'')"
  "plain (asc ''Acme'')" "plain (asc ''BSc'')"
  by (simp_all add: plain_def lookupLabels_def labelBreakRe_def ev_match)


subsection \<open>From the labeled text to the markup\<close>




text \<open>
  C9. The markup is the page template filled with the six lookups NAME, CONTACT, SUMMARY,
  EXPERIENCE, EDUCATION and SKILLS, whatever the labeled text is: LANGUAGES is not looked
  up and the template has no block for it. For a record with six plain values the
  LANGUAGES line leaves no trace at all: the markup is the one of the record without
  languages.
\<close>

theorem languages_no_block:
  assumes "plain (name f)" "plain (contact f)" "plain (summary f)"
    "plain (skills f)" "plain (experience f)" "plain (education f)"
  shows "renderHtmlFromAiText (render (f\<lparr>languages := l\<rparr>))
           = renderHtmlFromAiText (render (f\<lparr>languages := []\<rparr>))
     \<and> renderHtmlFromAiText t =
           page (orElse (getSection ''NAME'' t) (asc ''Applicant''))
                (orElse (getSection ''CONTACT'' t) [])
                (orElse (getSection ''SUMMARY'' t) [])
                (orElse (getSection ''EXPERIENCE'' t) [])
                (orElse (getSection ''EDUCATION'' t) [])
                (orElse (getSection ''SKILLS'' t) [])"
proof -
  have a: "plain (name (f\<lparr>languages := x\<rparr>))" "plain (contact (f\<lparr>languages := x\<rparr>))"
    "plain (summary (f\<lparr>languages := x\<rparr>))" "plain (skills (f\<lparr>languages := x\<rparr>))"
    "plain (experience (f\<lparr>languages := x\<rparr>))" "plain (education (f\<lparr>languages := x\<rparr>))" for x
    using assms by simp_all
  have "renderHtmlFromAiText (render (f\<lparr>languages := x\<rparr>))
      = page (orElse (name f) (asc ''Applicant''))
             (orElse (contact f @ (nl # asc ''PROFESSIONAL SUMMARY: '') @ summary f) [])
             (orElse (summary f) [])
             (orElse (experience f) [])
             (orElse (education f) [])
             (orElse (skills f @ (nl # asc ''WORK EXPERIENCE: '') @ experience f) [])" for x
    unfolding renderHtmlFromAiText_def lookups_plain[OF a] by simp
  then have "renderHtmlFromAiText (render (f\<lparr>languages := l\<rparr>))
           = renderHtmlFromAiText (render (f\<lparr>languages := []\<rparr>))" by simp
  then show ?thesis by (simp add: renderHtmlFromAiText_def)
qed

theorem languages_no_block_witness:
  "plain (name fields_plain) \<and> plain (contact fields_plain) \<and> plain (summary fields_plain)
   \<and> plain (skills fields_plain) \<and> plain (experience fields_plain) \<and> plain (education fields_plain)
   \<and> languages fields_plain = asc ''English''
   \<and> renderHtmlFromAiText (render fields_plain)
       = renderHtmlFromAiText (render (fields_plain\<lparr>languages := []\<rparr>))"
proof -
  have p: "plain (name fields_plain)" "plain (contact fields_plain)" "plain (summary fields_plain)"
    "plain (skills fields_plain)" "plain (experience fields_plain)" "plain (education fields_plain)"
    by (simp_all add: fields_plain_def plain_examples)
  have e: "fields_plain\<lparr>languages := asc ''English''\<rparr> = fields_plain"
    by (simp add: fields_plain_def)
  from languages_no_block[OF p, of "asc ''English''"]
  have r: "renderHtmlFromAiText (render (fields_plain\<lparr>languages := asc ''English''\<rparr>))
      = renderHtmlFromAiText (render (fields_plain\<lparr>languages := []\<rparr>))"
    by (rule conjunct1)
  have r': "renderHtmlFromAiText (render fields_plain)
      = renderHtmlFromAiText (render (fields_plain\<lparr>languages := []\<rparr>))"
    using r unfolding e .
  have l: "languages fields_plain = asc ''English''" by (simp add: fields_plain_def)
  from p l r' show ?thesis by blast
qed

text \<open>
  C1. The lookups do not give back what the rendering step wrote. For the resume
  \<^verbatim>\<open>"Name: Jane Doe\njane@x.com\n"\<close> the CONTACT line holds \<^verbatim>\<open>jane@x.com\<close>, and
  the CONTACT lookup returns it together with the whole PROFESSIONAL SUMMARY line: the
  lookahead \<^verbatim>\<open>\n[A-Z]+:\<close> does not see a label of two words.
\<close>

theorem roundtrip_contact_overrun:
  "extractFields resume_jane [] = Inr fields_jane
   \<and> improveResume resume_jane [] [] = Inr (render fields_jane)
   \<and> getSection ''CONTACT'' (render fields_jane)
       = asc ''jane@x.com'' @ [nl]
           @ asc ''PROFESSIONAL SUMMARY: Dedicated professional with strong expertise in multiple areas.''
   \<and> getSection ''CONTACT'' (render fields_jane) \<noteq> contact fields_jane"
proof -
  have 1: "extractFields resume_jane [] = Inr fields_jane"
    by (simp add: resume_jane_def fields_jane_def ev_extract ev_match)
  have "resume_jane \<noteq> []" "trim resume_jane \<noteq> []"
    by (simp_all add: resume_jane_def trim_Nil_iff asc_def isSpace_def)
  with 1 have 2: "improveResume resume_jane [] [] = Inr (render fields_jane)"
    by (simp add: improveResume_def)
  have 3: "getSection ''CONTACT'' (render fields_jane)
       = asc ''jane@x.com'' @ [nl]
           @ asc ''PROFESSIONAL SUMMARY: Dedicated professional with strong expertise in multiple areas.''"
    by (simp add: fields_jane_def ev_section ev_match)
  have 4: "getSection ''CONTACT'' (render fields_jane) \<noteq> contact fields_jane"
    unfolding 3 by (simp add: fields_jane_def asc_def)
  from 1 2 3 4 show ?thesis by blast
qed

subsection \<open>Name and skills extraction on the inputs where the code departs from the specification\<close>

text \<open>
  C5. The name expression carries no \<^verbatim>\<open>i\<close> flag: \<^verbatim>\<open>Name:\<close> and \<^verbatim>\<open>name:\<close>
  are found, \<^verbatim>\<open>NAME:\<close> is not, and the name falls back to \<^verbatim>\<open>Applicant\<close>.
\<close>

theorem name_label_case_sensitive:
  "extractName (asc ''NAME: Jane Doe'' @ [nl]) = asc ''Applicant''
   \<and> extractName (asc ''Name: Jane Doe'' @ [nl]) = asc ''Jane Doe''
   \<and> extractName (asc ''name: Jane Doe'' @ [nl]) = asc ''Jane Doe''"
  by (simp add: extractName_def nameRe_def ev_match)

text \<open>
  C6. Twenty comma-separated skills at the end of a text without a final line break give
  no skills at all (the lookahead asks for a line break before the end of the text); with
  the final line break they give the first twelve, joined by the bullet separator.
\<close>

theorem skills_need_final_newline:
  "extractSkills (asc ''Skills: a,b,c,d,e,f,g,h,i,j,k,l,m,n,o,p,q,r,s,t'') = Inr []
   \<and> extractSkills (asc ''Skills: a,b,c,d,e,f,g,h,i,j,k,l,m,n,o,p,q,r,s,t'' @ [nl])
       = Inr (join bulletSep
                (map asc [''a'', ''b'', ''c'', ''d'', ''e'', ''f'', ''g'', ''h'', ''i'', ''j'', ''k'', ''l'']))"
  by (simp add: extractSkills_def sectionRaw_def skillsRe_def sectionRe_def js_split_def listSepRe_def
        bulletSep_def ev_match)

end
